theory Spec2Isabelle
  imports Main "HOL-Library.Word" "HOL-Library.List_Lexorder" "HOL-Library.Sublist"
begin

text \<open>
  A model of the dictionary wrapper: the loader \<open>setup\<close>, which fills an ordered
  key-value store from a JSON corpus, the substring enumerator \<open>allSubstrings\<close>, and the
  queries \<open>charBeginning\<close>, \<open>charAnywhere\<close>, \<open>idsToWords\<close> and \<open>getField\<close>.  The
  definitions follow \<open>index.js\<close>, whose words carry the indexed field \<open>traditional\<close>.
  The store keeps and orders its keys as the bytes of their UTF-8 encoding.
  (\<open>index.ts\<close> has the same probe, the same enumerator and the same queries; its loader
  indexes the two fields \<open>content\<close> and \<open>simplified\<close> and adds a loop over
  characters.)
\<close>

section \<open>Strings\<close>

text \<open>
  A JavaScript string is a sequence of UTF-16 code units; \<open>s.length\<close> and
  \<open>s.substring\<close> count code units.
\<close>

type_synonym jstring = "16 word list"

definition js :: "string \<Rightarrow> jstring" where
  "js s = map of_char s"

text \<open>The code unit U+FFFF that the source appends to the lower bound of a scan.\<close>

definition uFFFF :: "16 word" where
  "uFFFF = 0xFFFF"

text \<open>
  \<^verbatim>\<open>String.prototype.substring(a, b)\<close>: both indices are clamped to the length of the
  string, and they are swapped when the first is larger than the second.
\<close>

definition substring :: "jstring \<Rightarrow> nat \<Rightarrow> nat \<Rightarrow> jstring" where
  "substring s a b =
     (let a' = min a (length s); b' = min b (length s);
          lo = min a' b'; hi = max a' b'
      in take (hi - lo) (drop lo s))"

section \<open>The interfaces\<close>

record Word =
  word_id :: jstring
  traditional :: jstring
  simplified :: jstring
  pinyin :: jstring
  jyutping :: jstring
  meaning :: "jstring list"
  comments :: jstring

record Simplified =
  version :: jstring
  "words" :: "Word list"

section \<open>The substring enumerator\<close>

text \<open>
  A JavaScript \<open>Set\<close> iterates in insertion order, and \<open>add\<close> of a member
  changes nothing: a list without duplicates, extended at its end.
\<close>

definition set_add :: "'a \<Rightarrow> 'a list \<Rightarrow> 'a list" where
  "set_add x ret = (if x \<in> set ret then ret else ret @ [x])"

text \<open>
  \<^verbatim>\<open>
  function allSubstrings(s) {
      const slen = s.length;
      let ret = new Set();
      for (let start = 0; start < slen; start++) {
          for (let length = 1; length <= slen - start; length++) {
              ret.add(s.substring(start, length));
          }
      }
      return ret;
  }\<close>
\<close>

definition allSubstrings :: "jstring \<Rightarrow> jstring list" where
  "allSubstrings s =
     (let slen = length s in
      fold (\<lambda>start ret.
              fold (\<lambda>len ret. set_add (substring s start len) ret)
                   [1..<Suc (slen - start)] ret)
           [0..<slen] [])"

section \<open>The store\<close>

datatype error =
    ConfigurationError
  | SyntaxError
  | NotFound
  | NotOpen
  | StoreError

text \<open>
  The operations of a batch (the type \<open>AbstractBatchOperation\<close> of the store's package):
  \<open>{type: 'put', key, value}\<close> and \<open>{type: 'del', key}\<close>.
\<close>

datatype batch_op = Put jstring jstring | Del jstring

text \<open>
  The store keeps its keys as byte strings, the UTF-8 encoding of the JavaScript strings
  (the key encoding \<open>utf8\<close> of the store's package), and compares them byte by byte
  (the order of \<open>HOL-Library.List_Lexorder\<close> on lists of bytes).  A high surrogate
  followed by a low surrogate encodes one code point in four bytes; a surrogate without
  its partner is encoded as U+FFFD.
\<close>

type_synonym bytes = "8 word list"

definition is_high :: "16 word \<Rightarrow> bool" where
  "is_high c \<longleftrightarrow> 0xD800 \<le> unat c \<and> unat c \<le> 0xDBFF"

definition is_low :: "16 word \<Rightarrow> bool" where
  "is_low c \<longleftrightarrow> 0xDC00 \<le> unat c \<and> unat c \<le> 0xDFFF"

text \<open>Modelled from the spec: the UTF-8 bytes of a code point.\<close>

definition utf8_cp :: "nat \<Rightarrow> bytes" where
  "utf8_cp n =
     (if n < 0x80 then [of_nat n]
      else if n < 0x800 then [of_nat (0xC0 + n div 64), of_nat (0x80 + n mod 64)]
      else if n < 0x10000
        then [of_nat (0xE0 + n div 4096), of_nat (0x80 + n div 64 mod 64),
              of_nat (0x80 + n mod 64)]
      else [of_nat (0xF0 + n div 262144), of_nat (0x80 + n div 4096 mod 64),
            of_nat (0x80 + n div 64 mod 64), of_nat (0x80 + n mod 64)])"

text \<open>Modelled from the spec: the UTF-8 bytes of a JavaScript string.\<close>

fun utf8 :: "jstring \<Rightarrow> bytes" where
  "utf8 [] = []"
| "utf8 [c] = (if is_high c \<or> is_low c then utf8_cp 0xFFFD else utf8_cp (unat c))"
| "utf8 (c # d # s) =
     (if is_high c \<and> is_low d
      then utf8_cp (0x10000 + (unat c - 0xD800) * 0x400 + (unat d - 0xDC00)) @ utf8 s
      else if is_high c \<or> is_low c then utf8_cp 0xFFFD @ utf8 (d # s)
      else utf8_cp (unat c) @ utf8 (d # s))"

type_synonym store = "(bytes \<times> jstring) list"

text \<open>
  The ordered key-value store (the packages \<open>classic-level\<close> and \<open>level-read-stream\<close>)
  is not part of the repository; the definitions of this section are modelled from its
  contract in section 4.1 of the specification: \<open>get\<close>, which fails with \<open>NotFound\<close>
  on an absent key, \<open>batch\<close> of an ordered list of operations, and
  \<open>scan(gte, lt, limit)\<close>, which yields the values of the keys in the range in ascending
  key order and stops after \<open>limit\<close> items when \<open>limit \<ge> 0\<close>.
\<close>

text \<open>
  Modelled from the spec: a \<open>put\<close> on the contents of a store, an association list of
  byte keys and values in ascending key order; the value of a key already present is
  replaced.
\<close>

fun store_put :: "bytes \<Rightarrow> jstring \<Rightarrow> store \<Rightarrow> store" where
  "store_put k v [] = [(k, v)]"
| "store_put k v ((k', v') # s) =
     (if k < k' then (k, v) # (k', v') # s
      else if k = k' then (k, v) # s
      else (k', v') # store_put k v s)"

text \<open>Modelled from the spec: a \<open>del\<close> removes the key.\<close>

definition store_del :: "bytes \<Rightarrow> store \<Rightarrow> store" where
  "store_del k s = filter (\<lambda>e. fst e \<noteq> k) s"

text \<open>Modelled from the spec: one operation of a batch, on the encoded key.\<close>

fun apply_op :: "batch_op \<Rightarrow> store \<Rightarrow> store" where
  "apply_op (Put k v) s = store_put (utf8 k) v s"
| "apply_op (Del k) s = store_del (utf8 k) s"

text \<open>
  Modelled from the spec: \<open>scan(gte, lt, limit)\<close> on encoded bounds, the entries with
  \<open>gte \<le> key < lt\<close> in ascending key order, the first \<open>limit\<close> of them when
  \<open>limit \<ge> 0\<close> and all of them when \<open>limit < 0\<close>.
\<close>

definition range_entries :: "store \<Rightarrow> bytes \<Rightarrow> bytes \<Rightarrow> int \<Rightarrow> (bytes \<times> jstring) list" where
  "range_entries s gte lt limit =
     (let es = filter (\<lambda>e. gte \<le> fst e \<and> fst e < lt) s
      in if 0 \<le> limit then take (nat limit) es else es)"

text \<open>
  An open handle on a store: the contents, whether \<open>close\<close> was called, and the batches
  written through this handle so far, oldest first.
\<close>

record Db =
  kv :: store
  closed :: bool
  batches :: "batch_op list list"

text \<open>
  What lies outside the program: the file system (\<open>readFile\<close> is \<open>None\<close> where
  reading throws), the JSON parser on corpus documents and on serialised words (\<open>None\<close>
  where \<open>JSON.parse\<close> throws; documents of another shape than the interfaces are not
  modelled), the serialiser \<open>JSON.stringify\<close> on words, and whether the \<open>n\<close>-th batch
  written through a handle reaches the disk.
\<close>

record env =
  readFile :: "jstring \<Rightarrow> jstring option"
  JSON_parse :: "jstring \<Rightarrow> Simplified option"
  JSON_stringify :: "Word \<Rightarrow> jstring"
  JSON_parse_Word :: "jstring \<Rightarrow> Word option"
  batch_ok :: "nat \<Rightarrow> bool"

text \<open>Modelled from the spec: \<open>new ClassicLevel(dbpath)\<close> on the contents found at the path.\<close>

definition db_open :: "store \<Rightarrow> Db" where
  "db_open disk = \<lparr>kv = disk, closed = False, batches = []\<rparr>"

text \<open>
  Modelled from the spec: \<open>db.get(key)\<close> fails with \<open>NotFound\<close> on an absent key; on
  a closed handle it fails with \<open>NotOpen\<close>, as every operation of the store does.
\<close>

definition db_get :: "Db \<Rightarrow> jstring \<Rightarrow> error + jstring" where
  "db_get db key =
     (if closed db then Inl NotOpen
      else case map_of (kv db) (utf8 key) of None \<Rightarrow> Inl NotFound | Some v \<Rightarrow> Inr v)"

text \<open>
  Modelled from the spec: \<open>db.batch(ops)\<close> applies the operations in order as one unit and
  is logged in the handle; it fails, writing nothing, on a store error.
\<close>

definition db_batch :: "env \<Rightarrow> Db \<Rightarrow> batch_op list \<Rightarrow> error + Db" where
  "db_batch e db ops =
     (if closed db then Inl NotOpen
      else if \<not> batch_ok e (length (batches db)) then Inl StoreError
      else Inr (db\<lparr>kv := fold apply_op ops (kv db), batches := batches db @ [ops]\<rparr>))"

text \<open>Modelled from the spec: \<open>db.close()\<close>.\<close>

definition db_close :: "Db \<Rightarrow> Db" where
  "db_close db = db\<lparr>closed := True\<rparr>"

text \<open>
  Modelled from the spec: \<open>new ValueStream(db, {gte, lt, limit})\<close>, the values of the scan;
  the stream of a closed handle emits an error.
\<close>

definition ValueStream :: "Db \<Rightarrow> jstring \<Rightarrow> jstring \<Rightarrow> int \<Rightarrow> error + jstring list" where
  "ValueStream db gte lt limit =
     (if closed db then Inl NotOpen
      else Inr (map snd (range_entries (kv db) (utf8 gte) (utf8 lt) limit)))"

section \<open>The loader\<close>

datatype outcome = Returned jstring | Raised error | Exited nat

datatype message = Unable_to_find jstring | Entries_written nat

definition maxBatches :: nat where
  "maxBatches = 10000"

text \<open>The operations pushed for one word in the body of the loop of \<open>setup\<close>.\<close>

definition word_ops :: "env \<Rightarrow> bool \<Rightarrow> Word \<Rightarrow> batch_op list" where
  "word_ops e omitPartial w =
     [Put (js ''raw/words/'' @ word_id w) (JSON_stringify e w),
      Put (js ''indexes/'' @ traditional w @ js ''-'' @ word_id w) (word_id w)] @
     (if \<not> omitPartial
      then map (\<lambda>substr. Put (js ''indexes/partial/'' @ substr @ js ''-'' @ word_id w) (word_id w))
               (allSubstrings (traditional w))
      else [])"

text \<open>
  The loop over \<open>raw.words.entries()\<close>.  The state is the pending batch, the handle and
  the console; a rejected \<open>db.batch\<close> leaves the loop with the error.
\<close>

fun load_words ::
  "env \<Rightarrow> bool \<Rightarrow> bool \<Rightarrow> nat \<Rightarrow> Word list \<Rightarrow> batch_op list \<times> Db \<times> message list \<Rightarrow>
   (error \<times> Db \<times> message list) + (batch_op list \<times> Db \<times> message list)" where
  "load_words e verbose omitPartial numWordsWritten [] st = Inr st"
| "load_words e verbose omitPartial numWordsWritten (w # ws) (batch, db, console) =
     (if length batch > maxBatches
      then (case db_batch e db batch of
              Inl err \<Rightarrow> Inl (err, db, console)
            | Inr db' \<Rightarrow>
                load_words e verbose omitPartial (Suc numWordsWritten) ws
                  ([] @ word_ops e omitPartial w, db',
                   if verbose then console @ [Entries_written numWordsWritten] else console))
      else load_words e verbose omitPartial (Suc numWordsWritten) ws
             (batch @ word_ops e omitPartial w, db, console))"

text \<open>The body of the \<open>try\<close> block of \<open>setup\<close>.\<close>

definition load :: "env \<Rightarrow> bool \<Rightarrow> bool \<Rightarrow> Simplified \<Rightarrow> Db \<Rightarrow>
    (error \<times> Db \<times> message list) + (Db \<times> message list)" where
  "load e verbose omitPartial raw db =
     (let batch = map (\<lambda>key. Put (js ''raw/'' @ fst key) (snd key raw)) [(js ''version'', version)]
      in case load_words e verbose omitPartial 0 (words raw) (batch, db, []) of
           Inl failure \<Rightarrow> Inl failure
         | Inr (batch', db', console) \<Rightarrow>
             if batch' \<noteq> []
             then (case db_batch e db' batch' of
                     Inl err \<Rightarrow> Inl (err, db', console)
                   | Inr db'' \<Rightarrow> Inr (db'', console))
             else Inr (db', console))"

text \<open>
  The function \<open>setup(dbpath, filename, verbose, omitPartial)\<close> of the source, named
  \<open>setup_db\<close> here; \<open>disk\<close> is the contents of the store
  found at \<open>dbpath\<close>.  The result is how the call ends (the returned \<open>version\<close>, the
  error thrown, or the status of \<open>process.exit\<close>), the handle as the call leaves it, and
  what was printed on the console.
\<close>

definition setup_db :: "env \<Rightarrow> store \<Rightarrow> jstring \<Rightarrow> bool \<Rightarrow> bool \<Rightarrow> outcome \<times> Db \<times> message list" where
  "setup_db e disk filename verbose omitPartial =
     (let db = db_open disk in
      case db_get db (js ''version'') of
        Inr version' \<Rightarrow> (Returned version', db, [])
      | Inl _ \<Rightarrow>
          if filename = [] then (Raised ConfigurationError, db_close db, [])
          else (case readFile e filename of
                  None \<Rightarrow> (Exited 1, db, [Unable_to_find filename])
                | Some contents \<Rightarrow>
                    (case JSON_parse e contents of
                       None \<Rightarrow> (Raised SyntaxError, db, [])
                     | Some raw \<Rightarrow>
                         (case load e verbose omitPartial raw db of
                            Inl (err, db', console) \<Rightarrow> (Raised err, db_close db', console)
                          | Inr (db', console) \<Rightarrow> (Returned (version raw), db', console)))))"

section \<open>The queries\<close>

text \<open>\<open>drainStream\<close> pushes every value of the stream on \<open>ret\<close>; an error of the stream rejects.\<close>

definition drainStream :: "error + 'a list \<Rightarrow> error + 'a list" where
  "drainStream stream =
     (case stream of Inl err \<Rightarrow> Inl err | Inr xs \<Rightarrow> Inr (fold (\<lambda>x ret. ret @ [x]) xs []))"

text \<open>\<open>Promise.all\<close>: the results in the order of the promises, or the first rejection.\<close>

fun Promise_all :: "(error + 'a) list \<Rightarrow> error + 'a list" where
  "Promise_all [] = Inr []"
| "Promise_all (p # ps) =
     (case p of
        Inl err \<Rightarrow> Inl err
      | Inr x \<Rightarrow> (case Promise_all ps of Inl err \<Rightarrow> Inl err | Inr xs \<Rightarrow> Inr (x # xs)))"

definition idsToWords :: "env \<Rightarrow> Db \<Rightarrow> jstring list \<Rightarrow> error + Word list" where
  "idsToWords e db idxs =
     Promise_all (map (\<lambda>i. case db_get db (js ''raw/words/'' @ i) of
                             Inl err \<Rightarrow> Inl err
                           | Inr x \<Rightarrow> (case JSON_parse_Word e x of
                                         None \<Rightarrow> Inl SyntaxError
                                       | Some w \<Rightarrow> Inr w)) idxs)"

definition searchBeginning :: "env \<Rightarrow> Db \<Rightarrow> jstring \<Rightarrow> int \<Rightarrow> error + Word list" where
  "searchBeginning e db prefix' limit =
     (let gte = js ''indexes/'' @ prefix';
          values = ValueStream db gte (gte @ [uFFFF]) limit
      in case drainStream values of Inl err \<Rightarrow> Inl err | Inr idxs \<Rightarrow> idsToWords e db idxs)"

definition searchAnywhere :: "env \<Rightarrow> Db \<Rightarrow> jstring \<Rightarrow> int \<Rightarrow> error + Word list" where
  "searchAnywhere e db text limit =
     (let gte = js ''indexes/partial/'' @ text;
          values = ValueStream db gte (gte @ [uFFFF]) limit
      in case drainStream values of Inl err \<Rightarrow> Inl err | Inr idxs \<Rightarrow> idsToWords e db idxs)"

text \<open>The exported queries; a caller that gives no limit passes \<open>-1\<close>.\<close>

definition charBeginning :: "env \<Rightarrow> Db \<Rightarrow> jstring \<Rightarrow> int \<Rightarrow> error + Word list" where
  "charBeginning e db prefix' limit = searchBeginning e db prefix' limit"

definition charAnywhere :: "env \<Rightarrow> Db \<Rightarrow> jstring \<Rightarrow> int \<Rightarrow> error + Word list" where
  "charAnywhere e db text limit = searchAnywhere e db text limit"

definition getField :: "Db \<Rightarrow> jstring \<Rightarrow> error + jstring" where
  "getField db key = db_get db (js ''raw/'' @ key)"

section \<open>Notions used in the statements\<close>

text \<open>The bytes of a string of ASCII characters.\<close>

definition ascii :: "string \<Rightarrow> bytes" where
  "ascii s = map of_char s"

text \<open>The keys present in a store, as the store keeps them.\<close>

definition keys :: "store \<Rightarrow> bytes set" where
  "keys s = fst ` set s"

fun is_put :: "batch_op \<Rightarrow> bool" where
  "is_put (Put k v) = True"
| "is_put (Del k) = False"

text \<open>The contents of a store after a sequence of batches was written to it.\<close>

definition replay :: "store \<Rightarrow> batch_op list list \<Rightarrow> store" where
  "replay disk bs = fold (fold apply_op) bs disk"

text \<open>
  A handle opened on \<open>disk\<close> is \<open>logged\<close> when every operation written through it is a
  \<open>put\<close> and its contents are those of \<open>disk\<close> after the batches of its log.
\<close>

definition logged :: "store \<Rightarrow> Db \<Rightarrow> bool" where
  "logged disk db \<longleftrightarrow>
     (\<forall>b\<in>set (batches db). \<forall>op\<in>set b. is_put op) \<and> kv db = replay disk (batches db)"

text \<open>All operations of a load, in the order in which \<open>setup\<close> pushes them.\<close>

definition all_ops :: "env \<Rightarrow> bool \<Rightarrow> Simplified \<Rightarrow> batch_op list" where
  "all_ops e omitPartial raw =
     Put (js ''raw/version'') (version raw) # concat (map (word_ops e omitPartial) (words raw))"

text \<open>
  The scan of both searches: from \<open>gte\<close> to \<open>gte + U+FFFF\<close>.  An entry is
  \<open>in_scan\<close> when its key lies in that range, in the byte order of the encoded keys.
\<close>

definition in_scan :: "jstring \<Rightarrow> bytes \<times> jstring \<Rightarrow> bool" where
  "in_scan gte e \<longleftrightarrow> utf8 gte \<le> fst e \<and> fst e < utf8 (gte @ [uFFFF])"

definition scan_entries :: "store \<Rightarrow> jstring \<Rightarrow> int \<Rightarrow> (bytes \<times> jstring) list" where
  "scan_entries s gte limit = range_entries s (utf8 gte) (utf8 (gte @ [uFFFF])) limit"

text \<open>The order of pairs (field value, id) on two words.\<close>

definition value_id_le :: "Word \<Rightarrow> Word \<Rightarrow> bool" where
  "value_id_le a b \<longleftrightarrow>
     traditional a < traditional b \<or> (traditional a = traditional b \<and> word_id a \<le> word_id b)"

text \<open>
  The records \<open>rs\<close> are the records of the ids \<open>idxs\<close>, position by position: the
  \<open>i\<close>-th record is the parsed value of the key \<open>raw/words/\<close> followed by the
  \<open>i\<close>-th id.
\<close>

definition resolves :: "env \<Rightarrow> Db \<Rightarrow> jstring list \<Rightarrow> Word list \<Rightarrow> bool" where
  "resolves e db idxs rs \<longleftrightarrow>
     length rs = length idxs \<and>
     (\<forall>i<length idxs. \<exists>x. db_get db (js ''raw/words/'' @ idxs ! i) = Inr x \<and>
                            JSON_parse_Word e x = Some (rs ! i))"

text \<open>The kinds of keys of a store: of the records and of the index.\<close>

definition is_record_key :: "bytes \<Rightarrow> bool" where
  "is_record_key k \<longleftrightarrow> prefix (utf8 (js ''raw/words/'')) k"

definition is_index_key :: "bytes \<Rightarrow> bool" where
  "is_index_key k \<longleftrightarrow> prefix (utf8 (js ''indexes/'')) k"

text \<open>
  The index of a store resolves in the words \<open>ws\<close> when the store is in key order and the
  value of every index entry is an id under which the store holds the serialised form of
  one of the words.
\<close>

definition index_resolves :: "env \<Rightarrow> Word list \<Rightarrow> store \<Rightarrow> bool" where
  "index_resolves e ws s \<longleftrightarrow>
     sorted_wrt (<) (map fst s) \<and>
     (\<forall>entry\<in>set s. is_index_key (fst entry) \<longrightarrow>
        (\<exists>w\<in>set ws. map_of s (utf8 (js ''raw/words/'' @ snd entry)) =
                       Some (JSON_stringify e w)))"

section \<open>Example corpora\<close>

definition word_abc :: Word where
  "word_abc = \<lparr>word_id = js ''1'', traditional = js ''abc'', simplified = js ''abc'',
     pinyin = js ''a1 b1 c1'', jyutping = js ''aa1 bi1 si1'', meaning = [js ''letters''],
     comments = []\<rparr>"

definition corpus_abc :: Simplified where
  "corpus_abc = \<lparr>version = js ''1.0'', words = [word_abc]\<rparr>"

text \<open>
  A file system with one corpus file and one file that is not JSON, and the JSON codec on
  the documents of the example; every batch reaches the disk.
\<close>

definition env_abc :: env where
  "env_abc =
     \<lparr>readFile = (\<lambda>f. if f = js ''dict.json'' then Some (js ''{version:1.0,words:[{id:1}]}'')
                      else if f = js ''broken.json'' then Some (js ''{version:'')
                      else None),
      JSON_parse = (\<lambda>c. if c = js ''{version:1.0,words:[{id:1}]}'' then Some corpus_abc else None),
      JSON_stringify = (\<lambda>w. if w = word_abc then js ''{id:1}'' else []),
      JSON_parse_Word = (\<lambda>x. if x = js ''{id:1}'' then Some word_abc else None),
      batch_ok = (\<lambda>n. True)\<rparr>"

text \<open>The same, on a disk that rejects every batch.\<close>

definition env_full :: env where
  "env_full = env_abc\<lparr>batch_ok := (\<lambda>n. False)\<rparr>"

text \<open>The store that \<open>setup\<close> builds from the corpus file on an empty disk.\<close>

definition db_abc :: Db where
  "db_abc = fst (snd (setup_db env_abc [] (js ''dict.json'') False False))"

definition word_a :: Word where
  "word_a = \<lparr>word_id = js ''1'', traditional = js ''a'', simplified = js ''a'',
     pinyin = [], jyutping = [], meaning = [], comments = []\<rparr>"

definition word_a_bang :: Word where
  "word_a_bang = \<lparr>word_id = js ''2'', traditional = js ''a!'', simplified = js ''a!'',
     pinyin = [], jyutping = [], meaning = [], comments = []\<rparr>"

definition corpus_a :: Simplified where
  "corpus_a = \<lparr>version = js ''1.0'', words = [word_a, word_a_bang]\<rparr>"

definition env_a :: env where
  "env_a =
     \<lparr>readFile = (\<lambda>f. if f = js ''a.json'' then Some (js ''{version:1.0,words:[{id:1},{id:2}]}'')
                      else None),
      JSON_parse = (\<lambda>c. if c = js ''{version:1.0,words:[{id:1},{id:2}]}'' then Some corpus_a
                        else None),
      JSON_stringify = (\<lambda>w. if w = word_a then js ''{id:1}''
                            else if w = word_a_bang then js ''{id:2}'' else []),
      JSON_parse_Word = (\<lambda>x. if x = js ''{id:1}'' then Some word_a
                             else if x = js ''{id:2}'' then Some word_a_bang else None),
      batch_ok = (\<lambda>n. True)\<rparr>"

definition db_a :: Db where
  "db_a = fst (snd (setup_db env_a [] (js ''a.json'') False False))"

text \<open>
  Two words whose indexed fields continue the letter \<open>a\<close> with U+20BB7 (a surrogate
  pair) and with U+FF5E.
\<close>

definition word_a_astral :: Word where
  "word_a_astral = \<lparr>word_id = js ''1'', traditional = [0x61, 0xD842, 0xDFB7],
     simplified = [0x61, 0xD842, 0xDFB7], pinyin = [], jyutping = [], meaning = [],
     comments = []\<rparr>"

definition word_a_tilde :: Word where
  "word_a_tilde = \<lparr>word_id = js ''2'', traditional = [0x61, 0xFF5E],
     simplified = [0x61, 0xFF5E], pinyin = [], jyutping = [], meaning = [], comments = []\<rparr>"

definition corpus_u :: Simplified where
  "corpus_u = \<lparr>version = js ''1.0'', words = [word_a_astral, word_a_tilde]\<rparr>"

definition env_u :: env where
  "env_u =
     \<lparr>readFile = (\<lambda>f. if f = js ''u.json'' then Some (js ''{version:1.0,words:[{id:1},{id:2}]}'')
                      else None),
      JSON_parse = (\<lambda>c. if c = js ''{version:1.0,words:[{id:1},{id:2}]}'' then Some corpus_u
                        else None),
      JSON_stringify = (\<lambda>w. if w = word_a_astral then js ''{id:1}''
                            else if w = word_a_tilde then js ''{id:2}'' else []),
      JSON_parse_Word = (\<lambda>x. if x = js ''{id:1}'' then Some word_a_astral
                             else if x = js ''{id:2}'' then Some word_a_tilde else None),
      batch_ok = (\<lambda>n. True)\<rparr>"

definition db_u :: Db where
  "db_u = fst (snd (setup_db env_u [] (js ''u.json'') False False))"

section \<open>The encoding and the order of keys\<close>

lemma utf8_ascii: "unat c < 0x80 \<Longrightarrow> utf8 (c # s) = of_nat (unat c) # utf8 s"
  by (cases s) (simp_all add: is_high_def is_low_def utf8_cp_def)

lemma utf8_append_nonlow: "\<not> is_low c \<Longrightarrow> utf8 (a @ c # b) = utf8 a @ utf8 (c # b)"
  by (induction a rule: utf8.induct) simp_all

lemma utf8_sentinel: "utf8 (gte @ [uFFFF]) = utf8 gte @ [0xEF, 0xBF, 0xBF]"
proof -
  have l: "\<not> is_low uFFFF" by (simp add: is_low_def uFFFF_def)
  have "utf8 [uFFFF] = [0xEF, 0xBF, 0xBF]"
    by (simp add: is_high_def is_low_def utf8_cp_def uFFFF_def)
  with utf8_append_nonlow [OF l, of gte "[]"] show ?thesis by simp
qed

lemma range_prefix:
  fixes gte k :: bytes
  shows "gte \<le> k \<Longrightarrow> k < gte @ r \<Longrightarrow> prefix gte k"
proof (induction gte arbitrary: k)
  case Nil
  then show ?case by simp
next
  case (Cons a gte)
  then show ?case by (cases k) (auto split: if_splits)
qed

lemma in_scan_prefix: "in_scan gte entry \<Longrightarrow> prefix (utf8 gte) (fst entry)"
  unfolding in_scan_def utf8_sentinel using range_prefix by blast

lemma scan_entries_filter:
  "scan_entries s gte limit =
     (if 0 \<le> limit then take (nat limit) (filter (in_scan gte) s) else filter (in_scan gte) s)"
  by (simp add: scan_entries_def range_entries_def in_scan_def [abs_def])

lemma set_scan_entries:
  "set (scan_entries s gte limit) \<subseteq> {entry \<in> set s. in_scan gte entry}"
  by (auto simp: scan_entries_filter dest: in_set_takeD)

section \<open>The store\<close>

lemma map_of_store_put: "map_of (store_put k v s) = (map_of s)(k \<mapsto> v)"
  by (induction s) (auto simp: fun_upd_twist)

lemma set_store_put:
  "sorted_wrt (<) (map fst s) \<Longrightarrow>
   set (store_put k v s) = insert (k, v) {e \<in> set s. fst e \<noteq> k}"
proof (induction s)
  case Nil
  then show ?case by simp
next
  case (Cons e s)
  obtain k' v' where e: "e = (k', v')" by (cases e)
  from Cons.prems e have gt: "\<forall>x\<in>set s. k' < fst x" and srt: "sorted_wrt (<) (map fst s)"
    by auto
  show ?case
  proof (cases "k < k'")
    case True
    with gt have "\<forall>x\<in>set s. fst x \<noteq> k" by auto
    with True e show ?thesis by auto
  next
    case False
    show ?thesis
    proof (cases "k = k'")
      case True
      with gt have "\<forall>x\<in>set s. fst x \<noteq> k" by auto
      with True e show ?thesis by auto
    next
      case neq: False
      with False e Cons.IH [OF srt] show ?thesis by auto
    qed
  qed
qed

lemma sorted_store_put:
  "sorted_wrt (<) (map fst s) \<Longrightarrow> sorted_wrt (<) (map fst (store_put k v s))"
proof (induction s)
  case Nil
  then show ?case by simp
next
  case (Cons e s)
  obtain k' v' where e: "e = (k', v')" by (cases e)
  from Cons.prems e have gt: "\<forall>x\<in>set s. k' < fst x" and srt: "sorted_wrt (<) (map fst s)"
    by auto
  from gt srt Cons.IH [OF srt] show ?case
    unfolding e by (auto simp: set_store_put)
qed

lemma sorted_store_del:
  "sorted_wrt (<) (map fst s) \<Longrightarrow> sorted_wrt (<) (map fst (store_del k s))"
  by (induction s) (auto simp: store_del_def)

lemma sorted_apply_op:
  "sorted_wrt (<) (map fst s) \<Longrightarrow> sorted_wrt (<) (map fst (apply_op op s))"
proof (cases op)
  case (Put k v)
  assume "sorted_wrt (<) (map fst s)"
  then show ?thesis unfolding Put apply_op.simps by (rule sorted_store_put)
next
  case (Del k)
  assume "sorted_wrt (<) (map fst s)"
  then show ?thesis unfolding Del apply_op.simps by (rule sorted_store_del)
qed

lemma sorted_fold_apply_op:
  "sorted_wrt (<) (map fst s) \<Longrightarrow> sorted_wrt (<) (map fst (fold apply_op ops s))"
  by (induction ops arbitrary: s) (simp_all add: sorted_apply_op)

lemma keys_store_put: "keys (store_put k v s) = insert k (keys s)"
proof -
  have "dom (map_of (store_put k v s)) = insert k (dom (map_of s))"
    by (simp add: map_of_store_put)
  then show ?thesis by (simp add: keys_def dom_map_of_conv_image_fst)
qed

lemma keys_apply_put: "is_put op \<Longrightarrow> keys s \<subseteq> keys (apply_op op s)"
  by (cases op) (auto simp: keys_store_put)

lemma keys_fold_puts: "\<forall>op\<in>set ops. is_put op \<Longrightarrow> keys s \<subseteq> keys (fold apply_op ops s)"
proof (induction ops arbitrary: s)
  case Nil
  then show ?case by simp
next
  case (Cons op ops)
  have "keys s \<subseteq> keys (apply_op op s)" using Cons.prems by (simp add: keys_apply_put)
  also have "\<dots> \<subseteq> keys (fold apply_op ops (apply_op op s))" using Cons by simp
  finally show ?case by simp
qed


lemma replay_snoc: "replay disk (bs @ [ops]) = fold apply_op ops (replay disk bs)"
  by (simp add: replay_def)

lemma replay_concat: "replay disk bs = fold apply_op (concat bs) disk"
proof (induction bs arbitrary: disk)
  case Nil
  then show ?case by (simp add: replay_def)
next
  case (Cons b bs)
  from Cons [of "fold apply_op b disk"] show ?case by (simp add: replay_def)
qed

lemma keys_replay_step:
  assumes "\<forall>b\<in>set bs. \<forall>op\<in>set b. is_put op"
  shows "keys (replay disk (take n bs)) \<subseteq> keys (replay disk (take (Suc n) bs))"
proof (cases "n < length bs")
  case True
  then have "bs ! n \<in> set bs" by simp
  with assms have "\<forall>op\<in>set (bs ! n). is_put op" by blast
  then show ?thesis
    using True by (simp add: take_Suc_conv_app_nth replay_snoc keys_fold_puts)
next
  case False
  then show ?thesis by simp
qed

lemma keys_replay:
  assumes "\<forall>b\<in>set bs. \<forall>op\<in>set b. is_put op"
  shows "keys disk \<subseteq> keys (replay disk bs)"
proof -
  from assms have "\<forall>op\<in>set (concat bs). is_put op" by auto
  then show ?thesis unfolding replay_concat by (rule keys_fold_puts)
qed

section \<open>The loader\<close>

lemma word_ops_puts: "\<forall>op\<in>set (word_ops e omitPartial w). is_put op"
  by (auto simp: word_ops_def)

lemma logged_db_open: "logged disk (db_open disk)"
  by (simp add: logged_def db_open_def replay_def)

lemma db_batch_Inr:
  assumes "db_batch e db ops = Inr db'"
  shows "closed db' = closed db" and "\<not> closed db"
    and "kv db' = fold apply_op ops (kv db)" and "batches db' = batches db @ [ops]"
  using assms by (auto simp: db_batch_def split: if_splits)

lemma db_batch_logged:
  assumes "db_batch e db ops = Inr db'" and "\<forall>op\<in>set ops. is_put op" and "logged disk db"
  shows "logged disk db'"
  using assms db_batch_Inr [OF assms(1)] by (auto simp: logged_def replay_snoc)

text \<open>
  What the loop keeps, however it ends: the handle stays logged and as open as it was; when
  the loop finishes, the batches written and the pending batch together are the pushed
  operations, in order.
\<close>

lemma load_words_inv:
  assumes "\<forall>op\<in>set batch. is_put op" and "logged disk db"
  shows "case load_words e verbose omitPartial n ws (batch, db, console) of
           Inl (err, db', console') \<Rightarrow> logged disk db' \<and> closed db' = closed db
         | Inr (batch', db', console') \<Rightarrow>
             logged disk db' \<and> closed db' = closed db \<and> (\<forall>op\<in>set batch'. is_put op) \<and>
             concat (batches db') @ batch' =
               concat (batches db) @ batch @ concat (map (word_ops e omitPartial) ws)"
  using assms
proof (induction ws arbitrary: batch db console n)
  case Nil
  then show ?case by simp
next
  case (Cons w ws)
  show ?case
  proof (cases "length batch > maxBatches")
    case False
    have "\<forall>op\<in>set (batch @ word_ops e omitPartial w). is_put op"
      using Cons.prems(1) word_ops_puts by auto
    from Cons.IH [OF this Cons.prems(2), of "Suc n" console] False show ?thesis
      by (auto split: sum.splits)
  next
    case True
    show ?thesis
    proof (cases "db_batch e db batch")
      case (Inl err)
      with True Cons.prems show ?thesis by simp
    next
      case (Inr db')
      note b = db_batch_Inr [OF Inr]
      note l = db_batch_logged [OF Inr Cons.prems]
      have p: "\<forall>op\<in>set ([] @ word_ops e omitPartial w). is_put op"
        using word_ops_puts by auto
      let ?c = "if verbose then console @ [Entries_written n] else console"
      let ?r = "load_words e verbose omitPartial (Suc n) ws ([] @ word_ops e omitPartial w, db', ?c)"
      from Cons.IH [OF p l, of "Suc n" ?c] b(1) b(4)
      have "case ?r of
           Inl (err, db'', console') \<Rightarrow> logged disk db'' \<and> closed db'' = closed db
         | Inr (batch', db'', console') \<Rightarrow>
             logged disk db'' \<and> closed db'' = closed db \<and> (\<forall>op\<in>set batch'. is_put op) \<and>
             concat (batches db'') @ batch' =
               concat (batches db) @ batch @ concat (map (word_ops e omitPartial) (w # ws))"
        by (auto split: sum.splits)
      moreover have "load_words e verbose omitPartial n (w # ws) (batch, db, console) = ?r"
        using True Inr by simp
      ultimately show ?thesis by simp
    qed
  qed
qed

lemma load_inv:
  assumes "logged disk db"
  shows "case load e verbose omitPartial raw db of
           Inl (err, db', console') \<Rightarrow> logged disk db' \<and> closed db' = closed db
         | Inr (db', console') \<Rightarrow>
             logged disk db' \<and> closed db' = closed db \<and>
             concat (batches db') = concat (batches db) @ all_ops e omitPartial raw"
proof -
  let ?batch = "map (\<lambda>key. Put (js ''raw/'' @ fst key) (snd key raw)) [(js ''version'', version)]"
  have p: "\<forall>op\<in>set ?batch. is_put op" by simp
  have a: "?batch @ concat (map (word_ops e omitPartial) (words raw)) = all_ops e omitPartial raw"
    by (simp add: all_ops_def js_def)
  note lw = load_words_inv [OF p assms, where e = e and verbose = verbose
      and omitPartial = omitPartial and n = 0 and ws = "words raw" and console = "[]"]
  show ?thesis
  proof (cases "load_words e verbose omitPartial 0 (words raw) (?batch, db, [])")
    case (Inl failure)
    with lw show ?thesis by (simp add: load_def split: prod.splits)
  next
    case (Inr st)
    obtain batch' db' console where st: "st = (batch', db', console)" by (cases st)
    from lw Inr st a have inv: "logged disk db'" "closed db' = closed db"
      "\<forall>op\<in>set batch'. is_put op"
      "concat (batches db') @ batch' = concat (batches db) @ all_ops e omitPartial raw"
      by auto
    show ?thesis
    proof (cases "batch' \<noteq> []")
      case False
      with Inr st inv show ?thesis by (simp add: load_def)
    next
      case True
      show ?thesis
      proof (cases "db_batch e db' batch'")
        case (Inl err)
        with True Inr st inv show ?thesis by (simp add: load_def)
      next
        case r: (Inr db'')
        note b = db_batch_Inr [OF r]
        note l = db_batch_logged [OF r inv(3) inv(1)]
        from b l inv True Inr st r show ?thesis
          by (simp add: load_def)
      qed
    qed
  qed
qed

text \<open>However \<open>setup\<close> ends, the handle it leaves is logged.\<close>

lemma setup_logged:
  assumes "setup_db e disk filename verbose omitPartial = (out, db, console)"
  shows "logged disk db"
proof -
  have c: "logged disk (db_close d)" if "logged disk d" for d
    using that by (simp add: logged_def db_close_def)
  note o = logged_db_open [of disk]
  show ?thesis
  proof (cases "db_get (db_open disk) (js ''version'')")
    case (Inr v)
    with assms o show ?thesis by (simp add: setup_db_def)
  next
    case probe: (Inl err0)
    show ?thesis
    proof (cases "filename = []")
      case True
      with assms probe c [OF o] show ?thesis by (auto simp: setup_db_def)
    next
      case named: False
      show ?thesis
      proof (cases "readFile e filename")
        case None
        with assms probe named o show ?thesis by (auto simp: setup_db_def)
      next
        case (Some contents)
        show ?thesis
        proof (cases "JSON_parse e contents")
          case None
          with assms probe named Some o show ?thesis by (auto simp: setup_db_def)
        next
          case parsed: (Some raw)
          note l = load_inv [OF o, where e = e and verbose = verbose
              and omitPartial = omitPartial and raw = raw]
          show ?thesis
          proof (cases "load e verbose omitPartial raw (db_open disk)")
            case (Inl failure)
            obtain err db' console' where f: "failure = (err, db', console')"
              by (cases failure)
            from l Inl f have "logged disk db'" by simp
            from c [OF this] assms probe named Some parsed Inl f show ?thesis
              by (auto simp: setup_db_def)
          next
            case (Inr success)
            obtain db' console' where f: "success = (db', console')" by (cases success)
            from l Inr f have "logged disk db'" by simp
            with assms probe named Some parsed Inr f show ?thesis
              by (auto simp: setup_db_def)
          qed
        qed
      qed
    qed
  qed
qed

section \<open>The examples, evaluated\<close>

lemmas loader_defs =
  setup_db_def load_def db_open_def db_get_def db_batch_def db_close_def word_ops_def
  allSubstrings_def substring_def set_add_def maxBatches_def

lemmas utf8_defs = is_high_def is_low_def utf8_cp_def

lemmas query_defs =
  charBeginning_def charAnywhere_def searchBeginning_def searchAnywhere_def ValueStream_def
  range_entries_def drainStream_def idsToWords_def db_get_def uFFFF_def utf8_defs

lemmas abc_defs = env_abc_def corpus_abc_def word_abc_def

lemmas a_defs = env_a_def corpus_a_def word_a_def word_a_bang_def

lemmas u_defs = env_u_def corpus_u_def word_a_astral_def word_a_tilde_def

lemma setup_abc:
  "setup_db env_abc [] (js ''dict.json'') False False =
     (Returned (js ''1.0''),
      \<lparr>kv = [(ascii ''indexes/abc-1'', js ''1''),
             (ascii ''indexes/partial/-1'', js ''1''),
             (ascii ''indexes/partial/a-1'', js ''1''),
             (ascii ''indexes/partial/ab-1'', js ''1''),
             (ascii ''indexes/partial/abc-1'', js ''1''),
             (ascii ''indexes/partial/b-1'', js ''1''),
             (ascii ''raw/version'', js ''1.0''),
             (ascii ''raw/words/1'', js ''{id:1}'')],
       closed = False,
       batches = [[Put (js ''raw/version'') (js ''1.0''),
                   Put (js ''raw/words/1'') (js ''{id:1}''),
                   Put (js ''indexes/abc-1'') (js ''1''),
                   Put (js ''indexes/partial/a-1'') (js ''1''),
                   Put (js ''indexes/partial/ab-1'') (js ''1''),
                   Put (js ''indexes/partial/abc-1'') (js ''1''),
                   Put (js ''indexes/partial/-1'') (js ''1''),
                   Put (js ''indexes/partial/b-1'') (js ''1'')]]\<rparr>,
      [])"
  by (simp add: loader_defs abc_defs js_def utf8_defs ascii_def)

lemma db_abc:
  "db_abc =
     \<lparr>kv = [(ascii ''indexes/abc-1'', js ''1''),
            (ascii ''indexes/partial/-1'', js ''1''),
            (ascii ''indexes/partial/a-1'', js ''1''),
            (ascii ''indexes/partial/ab-1'', js ''1''),
            (ascii ''indexes/partial/abc-1'', js ''1''),
            (ascii ''indexes/partial/b-1'', js ''1''),
            (ascii ''raw/version'', js ''1.0''),
            (ascii ''raw/words/1'', js ''{id:1}'')],
      closed = False,
      batches = [[Put (js ''raw/version'') (js ''1.0''),
                  Put (js ''raw/words/1'') (js ''{id:1}''),
                  Put (js ''indexes/abc-1'') (js ''1''),
                  Put (js ''indexes/partial/a-1'') (js ''1''),
                  Put (js ''indexes/partial/ab-1'') (js ''1''),
                  Put (js ''indexes/partial/abc-1'') (js ''1''),
                  Put (js ''indexes/partial/-1'') (js ''1''),
                  Put (js ''indexes/partial/b-1'') (js ''1'')]]\<rparr>"
  unfolding db_abc_def setup_abc by simp

lemma setup_a:
  "setup_db env_a [] (js ''a.json'') False False =
     (Returned (js ''1.0''),
      \<lparr>kv = [(ascii ''indexes/a!-2'', js ''2''),
             (ascii ''indexes/a-1'', js ''1''),
             (ascii ''indexes/partial/-2'', js ''2''),
             (ascii ''indexes/partial/a!-2'', js ''2''),
             (ascii ''indexes/partial/a-1'', js ''1''),
             (ascii ''indexes/partial/a-2'', js ''2''),
             (ascii ''raw/version'', js ''1.0''),
             (ascii ''raw/words/1'', js ''{id:1}''),
             (ascii ''raw/words/2'', js ''{id:2}'')],
       closed = False,
       batches = [[Put (js ''raw/version'') (js ''1.0''),
                   Put (js ''raw/words/1'') (js ''{id:1}''),
                   Put (js ''indexes/a-1'') (js ''1''),
                   Put (js ''indexes/partial/a-1'') (js ''1''),
                   Put (js ''raw/words/2'') (js ''{id:2}''),
                   Put (js ''indexes/a!-2'') (js ''2''),
                   Put (js ''indexes/partial/a-2'') (js ''2''),
                   Put (js ''indexes/partial/a!-2'') (js ''2''),
                   Put (js ''indexes/partial/-2'') (js ''2'')]]\<rparr>,
      [])"
  by (simp add: loader_defs a_defs js_def utf8_defs ascii_def)

lemma db_a:
  "db_a =
     \<lparr>kv = [(ascii ''indexes/a!-2'', js ''2''),
            (ascii ''indexes/a-1'', js ''1''),
            (ascii ''indexes/partial/-2'', js ''2''),
            (ascii ''indexes/partial/a!-2'', js ''2''),
            (ascii ''indexes/partial/a-1'', js ''1''),
            (ascii ''indexes/partial/a-2'', js ''2''),
            (ascii ''raw/version'', js ''1.0''),
            (ascii ''raw/words/1'', js ''{id:1}''),
            (ascii ''raw/words/2'', js ''{id:2}'')],
      closed = False,
      batches = [[Put (js ''raw/version'') (js ''1.0''),
                  Put (js ''raw/words/1'') (js ''{id:1}''),
                  Put (js ''indexes/a-1'') (js ''1''),
                  Put (js ''indexes/partial/a-1'') (js ''1''),
                  Put (js ''raw/words/2'') (js ''{id:2}''),
                  Put (js ''indexes/a!-2'') (js ''2''),
                  Put (js ''indexes/partial/a-2'') (js ''2''),
                  Put (js ''indexes/partial/a!-2'') (js ''2''),
                  Put (js ''indexes/partial/-2'') (js ''2'')]]\<rparr>"
  unfolding db_a_def setup_a by simp

lemma kv_db_u:
  "kv db_u =
     [(ascii ''indexes/a'' @ [0xEF, 0xBD, 0x9E] @ ascii ''-2'', js ''2''),
      (ascii ''indexes/a'' @ [0xF0, 0xA0, 0xAE, 0xB7] @ ascii ''-1'', js ''1''),
      (ascii ''indexes/partial/-1'', js ''1''),
      (ascii ''indexes/partial/-2'', js ''2''),
      (ascii ''indexes/partial/a-1'', js ''1''),
      (ascii ''indexes/partial/a-2'', js ''2''),
      (ascii ''indexes/partial/a'' @ [0xEF, 0xBD, 0x9E] @ ascii ''-2'', js ''2''),
      (ascii ''indexes/partial/a'' @ [0xEF, 0xBF, 0xBD] @ ascii ''-1'', js ''1''),
      (ascii ''indexes/partial/a'' @ [0xF0, 0xA0, 0xAE, 0xB7] @ ascii ''-1'', js ''1''),
      (ascii ''indexes/partial/'' @ [0xEF, 0xBF, 0xBD] @ ascii ''-1'', js ''1''),
      (ascii ''raw/version'', js ''1.0''),
      (ascii ''raw/words/1'', js ''{id:1}''),
      (ascii ''raw/words/2'', js ''{id:2}'')]"
  by (simp add: db_u_def loader_defs u_defs js_def utf8_defs ascii_def)

section \<open>Setup on a populated store\<close>

text \<open>
  Claim C1 says that a second \<open>setup\<close> on a store that a first \<open>setup\<close> populated finds
  the metadata key, returns the same version and writes nothing.  The code probes the key
  \<open>version\<close>, while the loader writes the version under \<open>raw/version\<close>: on the store
  built from the example corpus the probe fails, the second call reads and parses the file
  again and writes the whole batch a second time, and a second call without a file name
  raises the configuration error.
\<close>

theorem second_setup_loads_again:
  "setup_db env_abc [] (js ''dict.json'') False False = (Returned (js ''1.0''), db_abc, []) \<and>
   db_get db_abc (js ''version'') = Inl NotFound \<and>
   getField db_abc (js ''version'') = Inr (js ''1.0'') \<and>
   setup_db env_abc (kv db_abc) (js ''dict.json'') False False = (Returned (js ''1.0''), db_abc, []) \<and>
   length (concat (batches db_abc)) = 8 \<and>
   setup_db env_abc (kv db_abc) [] False False =
     (Raised ConfigurationError, db_close (db_open (kv db_abc)), [])"
proof -
  have 1: "setup_db env_abc [] (js ''dict.json'') False False = (Returned (js ''1.0''), db_abc, [])"
    unfolding setup_abc db_abc by simp
  have 2: "db_get db_abc (js ''version'') = Inl NotFound"
    unfolding db_abc by (simp add: db_get_def js_def utf8_defs ascii_def)
  have 3: "getField db_abc (js ''version'') = Inr (js ''1.0'')"
    unfolding db_abc by (simp add: getField_def db_get_def js_def utf8_defs ascii_def)
  have 4: "setup_db env_abc (kv db_abc) (js ''dict.json'') False False =
      (Returned (js ''1.0''), db_abc, [])"
    unfolding db_abc by (simp add: loader_defs abc_defs js_def utf8_defs ascii_def)
  have 5: "length (concat (batches db_abc)) = 8"
    unfolding db_abc by simp
  have 6: "setup_db env_abc (kv db_abc) [] False False =
      (Raised ConfigurationError, db_close (db_open (kv db_abc)), [])"
    unfolding db_abc
    by (simp add: setup_db_def db_get_def db_open_def db_close_def js_def utf8_defs ascii_def)
  from 1 2 3 4 5 6 show ?thesis by blast
qed

section \<open>The substring enumerator\<close>

text \<open>
  Claim C2 says that the enumerator returns exactly the non-empty contiguous substrings of
  its argument.  The code passes the length as the end index of \<open>substring\<close>: of
  \<open>abc\<close> it returns \<open>a\<close>, \<open>ab\<close>, \<open>abc\<close>, the empty string and \<open>b\<close>, and
  neither \<open>bc\<close> nor \<open>c\<close>.
\<close>

theorem allSubstrings_abc:
  "allSubstrings (js ''abc'') = [js ''a'', js ''ab'', js ''abc'', js '''', js ''b'']"
  by (simp add: allSubstrings_def substring_def set_add_def js_def)

text \<open>
  Claim C3 says that after a load with substring indexing the search for any non-empty
  contiguous substring of an indexed field returns the record.  On the store built from the
  example corpus, whose only word is \<open>abc\<close>, the searches for \<open>c\<close> and \<open>bc\<close> return
  nothing (the search for \<open>b\<close> returns the word).
\<close>

theorem substring_search_abc:
  "traditional word_abc = js ''ab'' @ js ''c'' \<and>
   traditional word_abc = js ''a'' @ js ''bc'' \<and>
   charAnywhere env_abc db_abc (js ''c'') (- 1) = Inr [] \<and>
   charAnywhere env_abc db_abc (js ''bc'') (- 1) = Inr [] \<and>
   charAnywhere env_abc db_abc (js ''b'') (- 1) = Inr [word_abc]"
proof -
  have 1: "traditional word_abc = js ''ab'' @ js ''c''"
    and 2: "traditional word_abc = js ''a'' @ js ''bc''"
    by (simp_all add: word_abc_def js_def)
  have 3: "charAnywhere env_abc db_abc (js ''c'') (- 1) = Inr []"
    unfolding db_abc by (simp add: query_defs js_def ascii_def)
  have 4: "charAnywhere env_abc db_abc (js ''bc'') (- 1) = Inr []"
    unfolding db_abc by (simp add: query_defs js_def ascii_def)
  have 5: "charAnywhere env_abc db_abc (js ''b'') (- 1) = Inr [word_abc]"
    unfolding db_abc by (simp add: query_defs js_def ascii_def env_abc_def)
  from 1 2 3 4 5 show ?thesis by blast
qed

section \<open>A load only puts\<close>

text \<open>
  Claim C10: every operation that \<open>setup\<close> writes is a \<open>put\<close>, so the keys of the store
  only grow: the contents of the store are those of the disk after the batches written, every
  key of the disk is in the store that \<open>setup\<close> leaves, and every key present before a
  batch is flushed is present after it.
\<close>

theorem setup_only_puts:
  assumes "setup_db e disk filename verbose omitPartial = (out, db, console)"
  shows "(\<forall>b\<in>set (batches db). \<forall>op\<in>set b. is_put op) \<and>
         kv db = replay disk (batches db) \<and>
         keys disk \<subseteq> keys (kv db) \<and>
         (\<forall>n. keys (replay disk (take n (batches db))) \<subseteq>
              keys (replay disk (take (Suc n) (batches db))))"
proof -
  from setup_logged [OF assms]
  have p: "\<forall>b\<in>set (batches db). \<forall>op\<in>set b. is_put op"
    and r: "kv db = replay disk (batches db)"
    by (simp_all add: logged_def)
  from keys_replay [OF p, of disk] r have "keys disk \<subseteq> keys (kv db)" by simp
  with p r keys_replay_step [OF p, of disk] show ?thesis by blast
qed

text \<open>A load on a disk that holds one entry keeps the key of that entry.\<close>

theorem setup_only_puts_witness:
  "setup_db env_abc [(ascii ''old'', js ''entry'')] (js ''dict.json'') False False =
     (Returned (js ''1.0''),
      fst (snd (setup_db env_abc [(ascii ''old'', js ''entry'')] (js ''dict.json'') False False)), []) \<and>
   length (batches (fst (snd (setup_db env_abc [(ascii ''old'', js ''entry'')] (js ''dict.json'') False False)))) = 1 \<and>
   ascii ''old'' \<in> keys (kv (fst (snd (setup_db env_abc [(ascii ''old'', js ''entry'')] (js ''dict.json'') False False))))"
proof -
  let ?r = "setup_db env_abc [(ascii ''old'', js ''entry'')] (js ''dict.json'') False False"
  have s: "?r = (fst ?r, fst (snd ?r), snd (snd ?r))" by simp
  have o: "fst ?r = Returned (js ''1.0'')" and c: "snd (snd ?r) = []"
    and n: "length (batches (fst (snd ?r))) = 1"
    by (simp_all add: loader_defs abc_defs js_def utf8_defs ascii_def)
  have k: "ascii ''old'' \<in> keys [(ascii ''old'', js ''entry'')]" by (simp add: keys_def)
  from setup_only_puts [OF s] k have "ascii ''old'' \<in> keys (kv (fst (snd ?r)))" by blast
  with s o c n show ?thesis by simp
qed

section \<open>How setup ends\<close>

lemma setup_probe_found:
  "db_get (db_open disk) (js ''version'') = Inr v \<Longrightarrow>
   setup_db e disk filename verbose omitPartial = (Returned v, db_open disk, [])"
  by (simp add: setup_db_def)

lemma setup_no_filename:
  "db_get (db_open disk) (js ''version'') = Inl err \<Longrightarrow>
   setup_db e disk [] verbose omitPartial = (Raised ConfigurationError, db_close (db_open disk), [])"
  by (simp add: setup_db_def)

lemma setup_unreadable:
  "db_get (db_open disk) (js ''version'') = Inl err \<Longrightarrow> filename \<noteq> [] \<Longrightarrow>
   readFile e filename = None \<Longrightarrow>
   setup_db e disk filename verbose omitPartial = (Exited 1, db_open disk, [Unable_to_find filename])"
  by (simp add: setup_db_def)

lemma setup_unparsable:
  "db_get (db_open disk) (js ''version'') = Inl err \<Longrightarrow> filename \<noteq> [] \<Longrightarrow>
   readFile e filename = Some contents \<Longrightarrow> JSON_parse e contents = None \<Longrightarrow>
   setup_db e disk filename verbose omitPartial = (Raised SyntaxError, db_open disk, [])"
  by (simp add: setup_db_def)

lemma setup_load:
  "db_get (db_open disk) (js ''version'') = Inl err \<Longrightarrow> filename \<noteq> [] \<Longrightarrow>
   readFile e filename = Some contents \<Longrightarrow> JSON_parse e contents = Some raw \<Longrightarrow>
   setup_db e disk filename verbose omitPartial =
     (case load e verbose omitPartial raw (db_open disk) of
        Inl (err, db', console) \<Rightarrow> (Raised err, db_close db', console)
      | Inr (db', console) \<Rightarrow> (Returned (version raw), db', console))"
  by (simp add: setup_db_def)

text \<open>The five ways in which \<open>setup\<close> ends.\<close>

lemma setup_cases:
  assumes "setup_db e disk filename verbose omitPartial = (out, db, console)"
  obtains
    (found) v where "out = Returned v" "db = db_open disk"
      "db_get (db_open disk) (js ''version'') = Inr v"
  | (no_filename) "out = Raised ConfigurationError" "db = db_close (db_open disk)"
  | (unreadable) "out = Exited 1" "db = db_open disk" "readFile e filename = None"
  | (unparsable) "out = Raised SyntaxError" "db = db_open disk"
  | (failed) err db' raw where "out = Raised err" "db = db_close db'"
      "load e verbose omitPartial raw (db_open disk) = Inl (err, db', console)"
  | (loaded) raw contents where "out = Returned (version raw)"
      "load e verbose omitPartial raw (db_open disk) = Inr (db, console)"
      "readFile e filename = Some contents" "JSON_parse e contents = Some raw"
proof (cases "db_get (db_open disk) (js ''version'')")
  case (Inr v)
  have "setup_db e disk filename verbose omitPartial = (Returned v, db_open disk, [])"
    by (rule setup_probe_found [OF Inr])
  with assms have "out = Returned v" "db = db_open disk" by simp_all
  then show ?thesis using Inr by (rule found)
next
  case probe: (Inl err0)
  show ?thesis
  proof (cases "filename = []")
    case True
    have "setup_db e disk [] verbose omitPartial =
        (Raised ConfigurationError, db_close (db_open disk), [])"
      by (rule setup_no_filename [OF probe])
    with assms True have "out = Raised ConfigurationError" "db = db_close (db_open disk)"
      by simp_all
    then show ?thesis by (rule no_filename)
  next
    case named: False
    show ?thesis
    proof (cases "readFile e filename")
      case None
      have "setup_db e disk filename verbose omitPartial =
          (Exited 1, db_open disk, [Unable_to_find filename])"
        by (rule setup_unreadable [OF probe named None])
      with assms have "out = Exited 1" "db = db_open disk" by simp_all
      then show ?thesis using None by (rule unreadable)
    next
      case (Some contents)
      show ?thesis
      proof (cases "JSON_parse e contents")
        case None
        have "setup_db e disk filename verbose omitPartial =
            (Raised SyntaxError, db_open disk, [])"
          by (rule setup_unparsable [OF probe named Some None])
        with assms have "out = Raised SyntaxError" "db = db_open disk" by simp_all
        then show ?thesis by (rule unparsable)
      next
        case parsed: (Some raw)
        have s: "setup_db e disk filename verbose omitPartial =
           (case load e verbose omitPartial raw (db_open disk) of
              Inl (err, db', console) \<Rightarrow> (Raised err, db_close db', console)
            | Inr (db', console) \<Rightarrow> (Returned (version raw), db', console))"
          by (rule setup_load [OF probe named Some parsed])
        show ?thesis
        proof (cases "load e verbose omitPartial raw (db_open disk)")
          case (Inl failure)
          obtain err db' console' where f: "failure = (err, db', console')"
            by (cases failure)
          from s assms Inl f have "out = Raised err" "db = db_close db'"
            "load e verbose omitPartial raw (db_open disk) = Inl (err, db', console)"
            by simp_all
          then show ?thesis by (rule failed)
        next
          case (Inr success)
          obtain db' console' where f: "success = (db', console')" by (cases success)
          from s assms Inr f have "out = Returned (version raw)"
            "load e verbose omitPartial raw (db_open disk) = Inr (db, console)"
            by simp_all
          then show ?thesis using Some parsed by (rule loaded)
        qed
      qed
    qed
  qed
qed

text \<open>
  Claim C5, amended.  The claim says that the handle is closed on every path on which
  \<open>setup\<close> fails, the unreadable source file among them.  What the code does: when no
  file name is given, and when a write of the load fails, \<open>setup\<close> closes the handle
  before it raises the error; when the file cannot be read, \<open>setup\<close> ends the process
  with status 1 and leaves the handle open.  A handle that \<open>setup\<close> returns is open.
\<close>

theorem failed_setup_closes:
  assumes "setup_db e disk filename verbose omitPartial = (out, db, console)"
  shows "(out = Raised ConfigurationError \<longrightarrow> closed db) \<and>
         (\<forall>err. out = Raised err \<and> err \<noteq> SyntaxError \<longrightarrow> closed db) \<and>
         (\<forall>n. out = Exited n \<longrightarrow> n = 1 \<and> readFile e filename = None \<and> \<not> closed db) \<and>
         (\<forall>v. out = Returned v \<longrightarrow> \<not> closed db)"
  using assms
proof (cases rule: setup_cases)
  case (found v)
  then show ?thesis by (simp add: db_open_def)
next
  case no_filename
  then show ?thesis by (simp add: db_close_def)
next
  case unreadable
  then show ?thesis by (simp add: db_open_def)
next
  case unparsable
  then show ?thesis by simp
next
  case (failed err db' raw)
  then show ?thesis by (simp add: db_close_def)
next
  case (loaded raw contents)
  from load_inv [OF logged_db_open, where e = e and verbose = verbose
      and omitPartial = omitPartial and raw = raw and disk = disk] loaded(2)
  have "closed db = closed (db_open disk)" by simp
  with loaded show ?thesis by (simp add: db_open_def)
qed

text \<open>
  The claim as the specification states it fails on the example file system: \<open>setup\<close>
  with the name of a file that does not exist ends the process and leaves the handle open.
\<close>

theorem setup_unreadable_leaves_open:
  "setup_db env_abc [] (js ''missing.json'') False False =
     (Exited 1, db_open [], [Unable_to_find (js ''missing.json'')]) \<and>
   \<not> closed (db_open [])"
  by (simp add: setup_db_def db_open_def db_get_def env_abc_def js_def)

text \<open>On a disk that rejects the batch, the load fails and the handle is closed.\<close>

theorem failed_setup_closes_witness:
  "setup_db env_full [] (js ''dict.json'') False False =
     (Raised StoreError, db_close (db_open []), []) \<and>
   StoreError \<noteq> SyntaxError \<and> closed (db_close (db_open []))"
proof -
  have s: "setup_db env_full [] (js ''dict.json'') False False =
     (Raised StoreError, db_close (db_open []), [])"
    by (simp add: loader_defs env_full_def abc_defs js_def)
  from failed_setup_closes [OF s] have "closed (db_close (db_open []))" by simp
  with s show ?thesis by simp
qed

text \<open>
  Claim C6, amended.  The claim says that an unreadable source file surfaces as an error to
  the caller of \<open>setup\<close>.  What the code does, on a store without the probed key and
  with a file name given: when the file cannot be read, \<open>setup\<close> prints that it is
  unable to find the file and ends the process with status 1, and no error reaches the
  caller; when the file is read and is not JSON, the error of the parser reaches the
  caller.  Either way nothing is written and nothing is tried again.
\<close>

theorem unreadable_exits_unparsable_raises:
  assumes "db_get (db_open disk) (js ''version'') = Inl probe" and "filename \<noteq> []"
  shows "(readFile e filename = None \<longrightarrow>
            setup_db e disk filename verbose omitPartial =
              (Exited 1, db_open disk, [Unable_to_find filename])) \<and>
         (\<forall>contents. readFile e filename = Some contents \<and> JSON_parse e contents = None \<longrightarrow>
            setup_db e disk filename verbose omitPartial =
              (Raised SyntaxError, db_open disk, []))"
  using setup_unreadable [OF assms] setup_unparsable [OF assms] by blast

text \<open>
  The claim as the specification states it fails on the example file system: \<open>setup\<close>
  with the name of a file that does not exist raises nothing, it ends the process with
  status 1.
\<close>

theorem setup_unreadable_exits:
  "readFile env_abc (js ''missing.json'') = None \<and>
   fst (setup_db env_abc [] (js ''missing.json'') False False) = Exited 1"
  by (simp add: setup_db_def db_open_def db_get_def env_abc_def js_def)

text \<open>The two cases on the example file system.\<close>

theorem unreadable_exits_unparsable_raises_witness:
  "db_get (db_open []) (js ''version'') = Inl NotFound \<and>
   js ''missing.json'' \<noteq> [] \<and> readFile env_abc (js ''missing.json'') = None \<and>
   setup_db env_abc [] (js ''missing.json'') False False =
     (Exited 1, db_open [], [Unable_to_find (js ''missing.json'')]) \<and>
   js ''broken.json'' \<noteq> [] \<and> readFile env_abc (js ''broken.json'') = Some (js ''{version:'') \<and>
   JSON_parse env_abc (js ''{version:'') = None \<and>
   setup_db env_abc [] (js ''broken.json'') False False = (Raised SyntaxError, db_open [], [])"
proof -
  have p: "db_get (db_open []) (js ''version'') = Inl NotFound"
    by (simp add: db_get_def db_open_def)
  have m: "js ''missing.json'' \<noteq> []" and b: "js ''broken.json'' \<noteq> []"
    by (simp_all add: js_def)
  have rm: "readFile env_abc (js ''missing.json'') = None"
    and rb: "readFile env_abc (js ''broken.json'') = Some (js ''{version:'')"
    and pb: "JSON_parse env_abc (js ''{version:'') = None"
    by (simp_all add: env_abc_def js_def)
  from unreadable_exits_unparsable_raises [OF p m, where e = env_abc and verbose = False
      and omitPartial = False] rm
  have 1: "setup_db env_abc [] (js ''missing.json'') False False =
     (Exited 1, db_open [], [Unable_to_find (js ''missing.json'')])" by blast
  from unreadable_exits_unparsable_raises [OF p b, where e = env_abc and verbose = False
      and omitPartial = False] rb pb
  have 2: "setup_db env_abc [] (js ''broken.json'') False False =
     (Raised SyntaxError, db_open [], [])" by blast
  from p m b rm rb pb 1 2 show ?thesis by blast
qed

section \<open>The queries\<close>

lemma fold_push: "fold (\<lambda>x ret. ret @ [x]) xs acc = acc @ xs"
  by (induction xs arbitrary: acc) simp_all

lemma drainStream_Inr: "drainStream (Inr xs) = Inr xs"
  by (simp add: drainStream_def fold_push)

lemma searchBeginning_open:
  "\<not> closed db \<Longrightarrow>
   searchBeginning e db q limit =
     idsToWords e db (map snd (scan_entries (kv db) (js ''indexes/'' @ q) limit))"
  by (simp add: searchBeginning_def ValueStream_def drainStream_Inr scan_entries_def)

lemma searchAnywhere_open:
  "\<not> closed db \<Longrightarrow>
   searchAnywhere e db q limit =
     idsToWords e db (map snd (scan_entries (kv db) (js ''indexes/partial/'' @ q) limit))"
  by (simp add: searchAnywhere_def ValueStream_def drainStream_Inr scan_entries_def)

lemma searchBeginning_closed: "closed db \<Longrightarrow> searchBeginning e db q limit = Inl NotOpen"
  by (simp add: searchBeginning_def ValueStream_def drainStream_def)

lemma searchAnywhere_closed: "closed db \<Longrightarrow> searchAnywhere e db q limit = Inl NotOpen"
  by (simp add: searchAnywhere_def ValueStream_def drainStream_def)

lemma Promise_all_Inr:
  "Promise_all ps = Inr xs \<Longrightarrow> length xs = length ps \<and> (\<forall>i<length ps. ps ! i = Inr (xs ! i))"
proof (induction ps arbitrary: xs)
  case Nil
  then show ?case by simp
next
  case (Cons p ps)
  from Cons.prems obtain y ys where p: "p = Inr y" and ps: "Promise_all ps = Inr ys"
    and xs: "xs = y # ys"
    by (auto split: sum.splits)
  from Cons.IH [OF ps] p xs show ?case by (auto simp: nth_Cons split: nat.splits)
qed

lemma Promise_all_all_Inr:
  "\<forall>p\<in>set ps. \<exists>x. p = Inr x \<Longrightarrow> \<exists>xs. Promise_all ps = Inr xs"
  by (induction ps) auto

lemma idsToWords_resolves: "idsToWords e db idxs = Inr rs \<Longrightarrow> resolves e db idxs rs"
proof -
  assume a: "idsToWords e db idxs = Inr rs"
  let ?f = "\<lambda>i. case db_get db (js ''raw/words/'' @ i) of
                   Inl err \<Rightarrow> Inl err
                 | Inr x \<Rightarrow> (case JSON_parse_Word e x of
                               None \<Rightarrow> Inl SyntaxError
                             | Some w \<Rightarrow> Inr w)"
  from a have "Promise_all (map ?f idxs) = Inr rs" by (simp add: idsToWords_def)
  from Promise_all_Inr [OF this]
  have l: "length rs = length idxs" and n: "\<forall>i<length idxs. ?f (idxs ! i) = Inr (rs ! i)"
    by simp_all
  have "\<exists>x. db_get db (js ''raw/words/'' @ idxs ! i) = Inr x \<and>
            JSON_parse_Word e x = Some (rs ! i)" if "i < length idxs" for i
  proof -
    from n that have f: "?f (idxs ! i) = Inr (rs ! i)" by blast
    show ?thesis
    proof (cases "db_get db (js ''raw/words/'' @ idxs ! i)")
      case (Inl err)
      with f show ?thesis by simp
    next
      case (Inr x)
      with f show ?thesis by (cases "JSON_parse_Word e x") simp_all
    qed
  qed
  with l show ?thesis by (simp add: resolves_def)
qed

lemma idsToWords_succeeds:
  assumes "\<forall>i\<in>set idxs. \<exists>x w. db_get db (js ''raw/words/'' @ i) = Inr x \<and>
                               JSON_parse_Word e x = Some w"
  shows "\<exists>rs. idsToWords e db idxs = Inr rs"
  unfolding idsToWords_def
proof (rule Promise_all_all_Inr)
  show "\<forall>p\<in>set (map (\<lambda>i. case db_get db (js ''raw/words/'' @ i) of
                   Inl err \<Rightarrow> Inl err
                 | Inr x \<Rightarrow> (case JSON_parse_Word e x of
                               None \<Rightarrow> Inl SyntaxError
                             | Some w \<Rightarrow> Inr w)) idxs). \<exists>x. p = Inr x"
    using assms by fastforce
qed

lemma length_scan_entries:
  "0 \<le> limit \<Longrightarrow> length (scan_entries s gte limit) \<le> nat limit"
  by (simp add: scan_entries_filter)

lemma scan_entries_zero: "scan_entries s gte 0 = []"
  by (simp add: scan_entries_filter)

lemma scan_entries_unbounded:
  "limit < 0 \<Longrightarrow> scan_entries s gte limit = filter (in_scan gte) s"
  by (simp add: scan_entries_filter)

lemma sorted_scan_entries:
  fixes s :: store
  assumes "sorted_wrt (<) (map fst s)"
  shows "sorted_wrt (<) (map fst (scan_entries s gte limit))"
proof -
  let ?es = "filter (in_scan gte) s"
  from assms have "sorted_wrt (\<lambda>x y. fst x < fst y) s" by (simp add: sorted_wrt_map)
  then have f: "sorted_wrt (\<lambda>x y. fst x < fst y) ?es" by (rule sorted_wrt_filter)
  then have "sorted_wrt (\<lambda>x y. fst x < fst y) (take n ?es)" for n by (rule sorted_wrt_take)
  with f show ?thesis by (simp add: scan_entries_filter sorted_wrt_map)
qed

text \<open>On a disk in key order, \<open>setup\<close> leaves a store in key order, however it ends.\<close>

lemma setup_sorted:
  assumes "setup_db e disk filename verbose omitPartial = (out, db, console)"
    and "sorted_wrt (<) (map fst disk)"
  shows "sorted_wrt (<) (map fst (kv db))"
proof -
  from setup_logged [OF assms(1)] have "kv db = fold apply_op (concat (batches db)) disk"
    by (simp add: logged_def replay_concat)
  with sorted_fold_apply_op [OF assms(2), of "concat (batches db)"] show ?thesis by simp
qed

lemma ValueStream_open:
  "\<not> closed db \<Longrightarrow>
   ValueStream db gte (gte @ [uFFFF]) limit = Inr (map snd (scan_entries (kv db) gte limit))"
  by (simp add: ValueStream_def scan_entries_def)

lemma in_scan_prefix_set:
  "entry \<in> set (scan_entries s gte limit) \<Longrightarrow> prefix (utf8 gte) (fst entry)"
  using set_scan_entries [of s gte limit] in_scan_prefix [of gte entry] by blast

section \<open>Scans of the examples\<close>

lemma open_db_a: "\<not> closed db_a"
  unfolding db_a by simp

lemma prefix_scan_a:
  "filter (in_scan (js ''indexes/'' @ js ''a'')) (kv db_a) =
     [(ascii ''indexes/a!-2'', js ''2''), (ascii ''indexes/a-1'', js ''1'')]"
  unfolding db_a by (simp add: in_scan_def uFFFF_def js_def utf8_defs ascii_def)

lemma partial_scan_a:
  "filter (in_scan (js ''indexes/partial/'' @ js ''a'')) (kv db_a) =
     [(ascii ''indexes/partial/a!-2'', js ''2''), (ascii ''indexes/partial/a-1'', js ''1''),
      (ascii ''indexes/partial/a-2'', js ''2'')]"
  unfolding db_a by (simp add: in_scan_def uFFFF_def js_def utf8_defs ascii_def)

lemma idsToWords_a:
  "idsToWords env_a db_a [js ''2''] = Inr [word_a_bang]"
  "idsToWords env_a db_a [js ''2'', js ''1''] = Inr [word_a_bang, word_a]"
  "idsToWords env_a db_a [js ''2'', js ''1'', js ''2''] = Inr [word_a_bang, word_a, word_a_bang]"
  unfolding db_a
  by (simp_all add: idsToWords_def db_get_def js_def utf8_defs ascii_def env_a_def)

lemma open_db_u: "\<not> closed db_u"
  by (simp add: db_u_def loader_defs u_defs js_def utf8_defs)

lemma prefix_scan_u:
  "take 2 (filter (in_scan (js ''indexes/'' @ [])) (kv db_u)) =
     [(ascii ''indexes/a'' @ [0xEF, 0xBD, 0x9E] @ ascii ''-2'', js ''2''),
      (ascii ''indexes/a'' @ [0xF0, 0xA0, 0xAE, 0xB7] @ ascii ''-1'', js ''1'')]"
  "filter (in_scan (js ''indexes/'' @ js ''a'')) (kv db_u) =
     [(ascii ''indexes/a'' @ [0xEF, 0xBD, 0x9E] @ ascii ''-2'', js ''2'')]"
  unfolding kv_db_u by (simp_all add: in_scan_def uFFFF_def js_def utf8_defs ascii_def)

lemma idsToWords_u:
  "idsToWords env_u db_u [js ''2''] = Inr [word_a_tilde]"
  "idsToWords env_u db_u [js ''2'', js ''1''] = Inr [word_a_tilde, word_a_astral]"
proof -
  have g: "db_get db_u (js ''raw/words/'' @ js ''1'') = Inr (js ''{id:1}'')"
    "db_get db_u (js ''raw/words/'' @ js ''2'') = Inr (js ''{id:2}'')"
    using open_db_u unfolding db_get_def kv_db_u
    by (simp_all add: js_def utf8_defs ascii_def)
  have p: "JSON_parse_Word env_u (js ''{id:1}'') = Some word_a_astral"
    "JSON_parse_Word env_u (js ''{id:2}'') = Some word_a_tilde"
    by (simp_all add: env_u_def js_def)
  from g p show "idsToWords env_u db_u [js ''2''] = Inr [word_a_tilde]"
    and "idsToWords env_u db_u [js ''2'', js ''1''] = Inr [word_a_tilde, word_a_astral]"
    by (simp_all add: idsToWords_def)
qed

section \<open>What a load leaves in the store\<close>

lemma index_prefix: "is_index_key (utf8 (js ''indexes/'' @ x))"
  by (simp add: is_index_key_def js_def utf8_ascii utf8_defs)

lemma record_key: "is_record_key (utf8 (js ''raw/words/'' @ i))"
  by (simp add: is_record_key_def js_def utf8_ascii utf8_defs)

lemma record_not_index: "is_record_key k \<Longrightarrow> \<not> is_index_key k"
  by (auto simp: is_record_key_def is_index_key_def js_def utf8_defs prefix_def)

lemma version_key: "\<not> is_record_key (utf8 (js ''raw/version''))"
  "\<not> is_index_key (utf8 (js ''raw/version''))"
  by (simp_all add: is_record_key_def is_index_key_def js_def utf8_defs)




lemma index_resolves_Nil: "index_resolves e ws []"
  by (simp add: index_resolves_def)

lemma index_resolves_put_record:
  assumes inv: "index_resolves e ws s" and w: "w \<in> set ws"
  shows "index_resolves e ws (store_put (utf8 (js ''raw/words/'' @ i)) (JSON_stringify e w) s)"
proof -
  let ?k = "utf8 (js ''raw/words/'' @ i)" and ?v = "JSON_stringify e w"
  from inv have srt: "sorted_wrt (<) (map fst s)" by (simp add: index_resolves_def)
  have "\<exists>w'\<in>set ws. map_of (store_put ?k ?v s) (utf8 (js ''raw/words/'' @ snd entry)) =
          Some (JSON_stringify e w')"
    if m: "entry \<in> set (store_put ?k ?v s)" and i: "is_index_key (fst entry)" for entry
  proof -
    from i record_not_index [OF record_key, of i] have "fst entry \<noteq> ?k" by auto
    with m set_store_put [OF srt, of ?k ?v] have "entry \<in> set s" by auto
    with inv i obtain w1 where w1: "w1 \<in> set ws"
      and g: "map_of s (utf8 (js ''raw/words/'' @ snd entry)) = Some (JSON_stringify e w1)"
      by (auto simp: index_resolves_def)
    show ?thesis
    proof (cases "utf8 (js ''raw/words/'' @ snd entry) = ?k")
      case True
      with w show ?thesis by (auto simp: map_of_store_put)
    next
      case False
      with w1 g show ?thesis by (auto simp: map_of_store_put)
    qed
  qed
  with sorted_store_put [OF srt] show ?thesis unfolding index_resolves_def by blast
qed

lemma index_resolves_put_other:
  assumes inv: "index_resolves e ws s" and k: "\<not> is_record_key k"
    and v: "is_index_key k \<longrightarrow>
            (\<exists>w\<in>set ws. map_of s (utf8 (js ''raw/words/'' @ v)) = Some (JSON_stringify e w))"
  shows "index_resolves e ws (store_put k v s)"
proof -
  from inv have srt: "sorted_wrt (<) (map fst s)" by (simp add: index_resolves_def)
  have same: "map_of (store_put k v s) (utf8 (js ''raw/words/'' @ x)) =
      map_of s (utf8 (js ''raw/words/'' @ x))" for x
    using k record_key [of x] by (auto simp: map_of_store_put)
  have "\<exists>w'\<in>set ws. map_of (store_put k v s) (utf8 (js ''raw/words/'' @ snd entry)) =
          Some (JSON_stringify e w')"
    if m: "entry \<in> set (store_put k v s)" and i: "is_index_key (fst entry)" for entry
  proof (cases "entry = (k, v)")
    case True
    with i v show ?thesis unfolding same by simp
  next
    case False
    with m set_store_put [OF srt, of k v] have "entry \<in> set s" by auto
    with inv i show ?thesis unfolding same by (auto simp: index_resolves_def)
  qed
  with sorted_store_put [OF srt] show ?thesis unfolding index_resolves_def by blast
qed

lemma index_resolves_index_puts:
  assumes "index_resolves e ws s" and "w \<in> set ws"
    and "map_of s (utf8 (js ''raw/words/'' @ v)) = Some (JSON_stringify e w)"
    and "\<forall>op\<in>set ops. \<exists>k. op = Put k v \<and> is_index_key (utf8 k)"
  shows "index_resolves e ws (fold apply_op ops s)"
  using assms
proof (induction ops arbitrary: s)
  case Nil
  then show ?case by simp
next
  case (Cons op ops)
  from Cons.prems(4) obtain k where op: "op = Put k v" and k: "is_index_key (utf8 k)" by auto
  from k record_not_index [of "utf8 k"] have nr: "\<not> is_record_key (utf8 k)" by blast
  from Cons.prems(2,3) have "is_index_key (utf8 k) \<longrightarrow>
       (\<exists>w\<in>set ws. map_of s (utf8 (js ''raw/words/'' @ v)) = Some (JSON_stringify e w))"
    by blast
  from index_resolves_put_other [OF Cons.prems(1) nr this]
  have 1: "index_resolves e ws (store_put (utf8 k) v s)" .
  have 2: "map_of (store_put (utf8 k) v s) (utf8 (js ''raw/words/'' @ v)) =
      Some (JSON_stringify e w)"
    using nr record_key [of v] Cons.prems(3) by (auto simp: map_of_store_put)
  from Cons.prems(4) have 3: "\<forall>op\<in>set ops. \<exists>k. op = Put k v \<and> is_index_key (utf8 k)"
    by simp
  from Cons.IH [OF 1 Cons.prems(2) 2 3] op show ?case by simp
qed

lemma index_resolves_word_ops:
  assumes "index_resolves e ws s" and "w \<in> set ws"
  shows "index_resolves e ws (fold apply_op (word_ops e omitPartial w) s)"
proof -
  let ?k = "js ''raw/words/'' @ word_id w"
  let ?s1 = "store_put (utf8 ?k) (JSON_stringify e w) s"
  define rest where "rest =
     Put (js ''indexes/'' @ traditional w @ js ''-'' @ word_id w) (word_id w) #
     (if \<not> omitPartial
      then map (\<lambda>substr. Put (js ''indexes/'' @ js ''partial/'' @ substr @ js ''-'' @ word_id w)
                              (word_id w))
               (allSubstrings (traditional w))
      else [])"
  have r: "word_ops e omitPartial w = Put ?k (JSON_stringify e w) # rest"
    by (simp add: word_ops_def rest_def js_def)
  have i: "\<forall>op\<in>set rest. \<exists>k. op = Put k (word_id w) \<and> is_index_key (utf8 k)"
    using index_prefix by (auto simp: rest_def)
  have 1: "index_resolves e ws ?s1" using assms by (rule index_resolves_put_record)
  have 2: "map_of ?s1 (utf8 ?k) = Some (JSON_stringify e w)" by (simp add: map_of_store_put)
  from index_resolves_index_puts [OF 1 assms(2) 2 i] show ?thesis by (simp add: r)
qed

lemma index_resolves_words:
  assumes "index_resolves e ws s" and "set ws' \<subseteq> set ws"
  shows "index_resolves e ws (fold apply_op (concat (map (word_ops e omitPartial) ws')) s)"
  using assms
proof (induction ws' arbitrary: s)
  case Nil
  then show ?case by simp
next
  case (Cons w ws')
  from Cons.prems have "index_resolves e ws (fold apply_op (word_ops e omitPartial w) s)"
    by (simp add: index_resolves_word_ops)
  from Cons.IH [OF this] Cons.prems(2) show ?case by simp
qed

lemma index_resolves_all_ops:
  "index_resolves e (words raw) (fold apply_op (all_ops e omitPartial raw) [])"
proof -
  from version_key(2) have "is_index_key (utf8 (js ''raw/version'')) \<longrightarrow>
    (\<exists>w\<in>set (words raw). map_of [] (utf8 (js ''raw/words/'' @ version raw)) =
       Some (JSON_stringify e w))"
    by simp
  from index_resolves_put_other [OF index_resolves_Nil version_key(1) this]
  have "index_resolves e (words raw) (store_put (utf8 (js ''raw/version'')) (version raw) [])" .
  from index_resolves_words [OF this order_refl] show ?thesis by (simp add: all_ops_def)
qed

lemma partial_gte: "js ''indexes/'' @ js ''partial/'' @ q = js ''indexes/partial/'' @ q"
  by (simp add: js_def)

text \<open>
  On a store whose index resolves, with a parser that reads back what the serialiser wrote
  for the words, the ids of every scan under \<open>indexes/\<close> resolve.
\<close>

lemma scan_succeeds:
  assumes o: "\<not> closed db" and inv: "index_resolves e ws (kv db)"
    and rt: "\<forall>w\<in>set ws. JSON_parse_Word e (JSON_stringify e w) = Some w"
  shows "\<exists>rs. idsToWords e db (map snd (scan_entries (kv db) (js ''indexes/'' @ q) limit)) = Inr rs"
proof -
  let ?gte = "js ''indexes/'' @ q"
  have "\<exists>x w'. db_get db (js ''raw/words/'' @ i) = Inr x \<and> JSON_parse_Word e x = Some w'"
    if i: "i \<in> set (map snd (scan_entries (kv db) ?gte limit))" for i
  proof -
    from i obtain entry where e: "entry \<in> set (scan_entries (kv db) ?gte limit)"
      and ie: "i = snd entry" by auto
    from e set_scan_entries [of "kv db" ?gte limit]
    have mem: "entry \<in> set (kv db)" and sc: "in_scan ?gte entry" by auto
    from in_scan_prefix [OF sc] index_prefix [of q] have "is_index_key (fst entry)"
      unfolding is_index_key_def by (rule prefix_order.trans [rotated])
    with inv mem obtain w' where w': "w' \<in> set ws"
      and g: "map_of (kv db) (utf8 (js ''raw/words/'' @ snd entry)) = Some (JSON_stringify e w')"
      by (auto simp: index_resolves_def)
    from g o ie have "db_get db (js ''raw/words/'' @ i) = Inr (JSON_stringify e w')"
      by (simp add: db_get_def)
    with rt w' show ?thesis by auto
  qed
  then show ?thesis
    using idsToWords_succeeds [of "map snd (scan_entries (kv db) ?gte limit)" db e] by blast
qed

text \<open>A load into the empty store that returns has written all operations of the corpus.\<close>

lemma setup_loaded:
  assumes s: "setup_db e [] filename verbose omitPartial = (Returned v, db, console)"
    and r: "readFile e filename = Some contents" and p: "JSON_parse e contents = Some raw"
  shows "kv db = fold apply_op (all_ops e omitPartial raw) []"
    and "concat (batches db) = all_ops e omitPartial raw" and "\<not> closed db"
    and "v = version raw"
proof -
  have probe: "db_get (db_open []) (js ''version'') = Inl NotFound"
    by (simp add: db_get_def db_open_def)
  have named: "filename \<noteq> []"
  proof
    assume "filename = []"
    with setup_no_filename [OF probe, of e verbose omitPartial] s show False by simp
  qed
  note c = setup_load [OF probe named r p, of verbose omitPartial]
  from c s obtain db' console' where
    l: "load e verbose omitPartial raw (db_open []) = Inr (db', console')"
    by (cases "load e verbose omitPartial raw (db_open [])") auto
  from c s l have d: "db' = db" and "console' = console" and v: "v = version raw"
    by simp_all
  from load_inv [OF logged_db_open, where e = e and verbose = verbose
      and omitPartial = omitPartial and raw = raw and disk = "[]"] l d
  have g: "logged [] db" and o: "closed db = closed (db_open [])"
    and b: "concat (batches db) = concat (batches (db_open [])) @ all_ops e omitPartial raw"
    by simp_all
  from b show 2: "concat (batches db) = all_ops e omitPartial raw" by (simp add: db_open_def)
  from g have "kv db = fold apply_op (concat (batches db)) []"
    by (simp add: logged_def replay_concat)
  with 2 show "kv db = fold apply_op (all_ops e omitPartial raw) []" by simp
  from o show "\<not> closed db" by (simp add: db_open_def)
  from v show "v = version raw" .
qed

section \<open>The limit of a query\<close>

lemma length_scan:
  "length (scan_entries s gte limit) =
     (if 0 \<le> limit then min (nat limit) (length (filter (in_scan gte) s))
      else length (filter (in_scan gte) s))"
  by (auto simp: scan_entries_filter)

text \<open>
  Claim C7: a query with a limit \<open>limit \<ge> 0\<close> returns at most \<open>limit\<close> records, with the
  limit 0 it returns the empty list, and with a negative limit it returns one record for
  every entry of the index in the range of the scan.  On a store whose index resolves (as
  the store of a load does), with a parser that reads back what the serialiser wrote, the
  query succeeds and returns as many records as the scan has entries: all entries of the
  range for a negative limit, and the first \<open>limit\<close> of them, or all if they are fewer, for
  a limit \<open>limit \<ge> 0\<close>.
\<close>

theorem limit_bound:
  "(\<forall>rs. charBeginning e db q limit = Inr rs \<longrightarrow>
      (0 \<le> limit \<longrightarrow> length rs \<le> nat limit) \<and>
      (limit < 0 \<longrightarrow>
         resolves e db (map snd (filter (in_scan (js ''indexes/'' @ q)) (kv db))) rs)) \<and>
   (\<forall>rs. charAnywhere e db q limit = Inr rs \<longrightarrow>
      (0 \<le> limit \<longrightarrow> length rs \<le> nat limit) \<and>
      (limit < 0 \<longrightarrow>
         resolves e db (map snd (filter (in_scan (js ''indexes/partial/'' @ q)) (kv db))) rs)) \<and>
   (\<not> closed db \<longrightarrow> charBeginning e db q 0 = Inr [] \<and> charAnywhere e db q 0 = Inr []) \<and>
   (\<not> closed db \<and> index_resolves e ws (kv db) \<and>
    (\<forall>w\<in>set ws. JSON_parse_Word e (JSON_stringify e w) = Some w) \<longrightarrow>
      (\<exists>rs. charBeginning e db q limit = Inr rs \<and>
            resolves e db (map snd (scan_entries (kv db) (js ''indexes/'' @ q) limit)) rs \<and>
            length rs =
              (if 0 \<le> limit
               then min (nat limit) (length (filter (in_scan (js ''indexes/'' @ q)) (kv db)))
               else length (filter (in_scan (js ''indexes/'' @ q)) (kv db)))) \<and>
      (\<exists>rs. charAnywhere e db q limit = Inr rs \<and>
            resolves e db (map snd (scan_entries (kv db) (js ''indexes/partial/'' @ q) limit)) rs \<and>
            length rs =
              (if 0 \<le> limit
               then min (nat limit)
                      (length (filter (in_scan (js ''indexes/partial/'' @ q)) (kv db)))
               else length (filter (in_scan (js ''indexes/partial/'' @ q)) (kv db)))))"
proof -
  have b: "(0 \<le> limit \<longrightarrow> length rs \<le> nat limit) \<and>
      (limit < 0 \<longrightarrow> resolves e db (map snd (filter (in_scan (js ''indexes/'' @ q)) (kv db))) rs)"
    if r: "charBeginning e db q limit = Inr rs" for rs
  proof -
    let ?es = "scan_entries (kv db) (js ''indexes/'' @ q) limit"
    from r have o: "\<not> closed db"
      using searchBeginning_closed [of db e q limit] by (auto simp: charBeginning_def)
    from r searchBeginning_open [OF o, of e q limit]
    have "idsToWords e db (map snd ?es) = Inr rs" by (simp add: charBeginning_def)
    then have res: "resolves e db (map snd ?es) rs" by (rule idsToWords_resolves)
    then have "length rs = length ?es" by (simp add: resolves_def)
    with res length_scan_entries [of limit "kv db"] scan_entries_unbounded [of limit "kv db"]
    show ?thesis by auto
  qed
  have a: "(0 \<le> limit \<longrightarrow> length rs \<le> nat limit) \<and>
      (limit < 0 \<longrightarrow>
         resolves e db (map snd (filter (in_scan (js ''indexes/partial/'' @ q)) (kv db))) rs)"
    if r: "charAnywhere e db q limit = Inr rs" for rs
  proof -
    let ?es = "scan_entries (kv db) (js ''indexes/partial/'' @ q) limit"
    from r have o: "\<not> closed db"
      using searchAnywhere_closed [of db e q limit] by (auto simp: charAnywhere_def)
    from r searchAnywhere_open [OF o, of e q limit]
    have "idsToWords e db (map snd ?es) = Inr rs" by (simp add: charAnywhere_def)
    then have res: "resolves e db (map snd ?es) rs" by (rule idsToWords_resolves)
    then have "length rs = length ?es" by (simp add: resolves_def)
    with res length_scan_entries [of limit "kv db"] scan_entries_unbounded [of limit "kv db"]
    show ?thesis by auto
  qed
  have z: "charBeginning e db q 0 = Inr [] \<and> charAnywhere e db q 0 = Inr []" if "\<not> closed db"
    using that
    by (simp add: charBeginning_def charAnywhere_def searchBeginning_open searchAnywhere_open
        scan_entries_zero idsToWords_def)
  have t: "(\<exists>rs. charBeginning e db q limit = Inr rs \<and>
            resolves e db (map snd (scan_entries (kv db) (js ''indexes/'' @ q) limit)) rs \<and>
            length rs =
              (if 0 \<le> limit
               then min (nat limit) (length (filter (in_scan (js ''indexes/'' @ q)) (kv db)))
               else length (filter (in_scan (js ''indexes/'' @ q)) (kv db)))) \<and>
      (\<exists>rs. charAnywhere e db q limit = Inr rs \<and>
            resolves e db (map snd (scan_entries (kv db) (js ''indexes/partial/'' @ q) limit)) rs \<and>
            length rs =
              (if 0 \<le> limit
               then min (nat limit)
                      (length (filter (in_scan (js ''indexes/partial/'' @ q)) (kv db)))
               else length (filter (in_scan (js ''indexes/partial/'' @ q)) (kv db))))"
    if o: "\<not> closed db" and inv: "index_resolves e ws (kv db)"
      and rt: "\<forall>w\<in>set ws. JSON_parse_Word e (JSON_stringify e w) = Some w"
  proof -
    let ?eb = "scan_entries (kv db) (js ''indexes/'' @ q) limit"
    let ?ea = "scan_entries (kv db) (js ''indexes/partial/'' @ q) limit"
    from scan_succeeds [OF o inv rt, of q limit] obtain rb where
      rb: "idsToWords e db (map snd ?eb) = Inr rb" by blast
    from scan_succeeds [OF o inv rt, of "js ''partial/'' @ q" limit] obtain ra where
      ra: "idsToWords e db (map snd ?ea) = Inr ra" unfolding partial_gte by blast
    from idsToWords_resolves [OF rb] have 1: "resolves e db (map snd ?eb) rb" .
    from idsToWords_resolves [OF ra] have 2: "resolves e db (map snd ?ea) ra" .
    from 1 have 3: "length rb = length ?eb" by (simp add: resolves_def)
    from 2 have 4: "length ra = length ?ea" by (simp add: resolves_def)
    from rb searchBeginning_open [OF o, of e q limit]
    have 5: "charBeginning e db q limit = Inr rb" by (simp add: charBeginning_def)
    from ra searchAnywhere_open [OF o, of e q limit]
    have 6: "charAnywhere e db q limit = Inr ra" by (simp add: charAnywhere_def)
    from 1 3 5 have "\<exists>rs. charBeginning e db q limit = Inr rs \<and>
            resolves e db (map snd ?eb) rs \<and>
            length rs =
              (if 0 \<le> limit
               then min (nat limit) (length (filter (in_scan (js ''indexes/'' @ q)) (kv db)))
               else length (filter (in_scan (js ''indexes/'' @ q)) (kv db)))"
      unfolding length_scan [symmetric] by blast
    moreover from 2 4 6 have "\<exists>rs. charAnywhere e db q limit = Inr rs \<and>
            resolves e db (map snd ?ea) rs \<and>
            length rs =
              (if 0 \<le> limit
               then min (nat limit)
                      (length (filter (in_scan (js ''indexes/partial/'' @ q)) (kv db)))
               else length (filter (in_scan (js ''indexes/partial/'' @ q)) (kv db)))"
      unfolding length_scan [symmetric] by blast
    ultimately show ?thesis by blast
  qed
  from a b z t show ?thesis by blast
qed

text \<open>
  The prefix search and the substring search for \<open>a\<close> on the store of the words \<open>a\<close> and
  \<open>a!\<close>, with the limits 1, 0 and \<open>-1\<close>: two entries of the index are in the range of the
  prefix search, three in that of the substring search.
\<close>

theorem limit_bound_witness:
  "\<not> closed db_a \<and> index_resolves env_a (words corpus_a) (kv db_a) \<and>
   JSON_parse_Word env_a (JSON_stringify env_a word_a) = Some word_a \<and>
   JSON_parse_Word env_a (JSON_stringify env_a word_a_bang) = Some word_a_bang \<and>
   length (filter (in_scan (js ''indexes/'' @ js ''a'')) (kv db_a)) = 2 \<and>
   length (filter (in_scan (js ''indexes/partial/'' @ js ''a'')) (kv db_a)) = 3 \<and>
   charBeginning env_a db_a (js ''a'') 1 = Inr [word_a_bang] \<and>
   charBeginning env_a db_a (js ''a'') 0 = Inr [] \<and>
   charBeginning env_a db_a (js ''a'') (- 1) = Inr [word_a_bang, word_a] \<and>
   charAnywhere env_a db_a (js ''a'') 1 = Inr [word_a_bang] \<and>
   charAnywhere env_a db_a (js ''a'') 0 = Inr [] \<and>
   charAnywhere env_a db_a (js ''a'') (- 1) = Inr [word_a_bang, word_a, word_a_bang] \<and>
   length [word_a_bang] \<le> nat 1 \<and>
   length [word_a_bang] =
     min (nat 1) (length (filter (in_scan (js ''indexes/'' @ js ''a'')) (kv db_a))) \<and>
   length [word_a_bang, word_a, word_a_bang] =
     length (filter (in_scan (js ''indexes/partial/'' @ js ''a'')) (kv db_a)) \<and>
   resolves env_a db_a (map snd (filter (in_scan (js ''indexes/'' @ js ''a'')) (kv db_a)))
     [word_a_bang, word_a] \<and>
   resolves env_a db_a (map snd (filter (in_scan (js ''indexes/partial/'' @ js ''a'')) (kv db_a)))
     [word_a_bang, word_a, word_a_bang]"
proof -
  have s: "setup_db env_a [] (js ''a.json'') False False = (Returned (js ''1.0''), db_a, [])"
    unfolding setup_a db_a by simp
  have r: "readFile env_a (js ''a.json'') = Some (js ''{version:1.0,words:[{id:1},{id:2}]}'')"
    and p: "JSON_parse env_a (js ''{version:1.0,words:[{id:1},{id:2}]}'') = Some corpus_a"
    by (simp_all add: env_a_def js_def)
  note ld = setup_loaded [OF s r p]
  from ld(3) have o: "\<not> closed db_a" .
  from index_resolves_all_ops [of env_a corpus_a False] ld(1)
  have inv: "index_resolves env_a (words corpus_a) (kv db_a)" by simp
  have rt1: "JSON_parse_Word env_a (JSON_stringify env_a word_a) = Some word_a"
    and rt2: "JSON_parse_Word env_a (JSON_stringify env_a word_a_bang) = Some word_a_bang"
    by (simp_all add: env_a_def js_def word_a_def word_a_bang_def)
  then have rt: "\<forall>w\<in>set (words corpus_a). JSON_parse_Word env_a (JSON_stringify env_a w) = Some w"
    by (simp add: corpus_a_def)
  have nb: "length (filter (in_scan (js ''indexes/'' @ js ''a'')) (kv db_a)) = 2"
    unfolding prefix_scan_a by simp
  have na: "length (filter (in_scan (js ''indexes/partial/'' @ js ''a'')) (kv db_a)) = 3"
    unfolding partial_scan_a by simp
  have b1: "charBeginning env_a db_a (js ''a'') 1 = Inr [word_a_bang]"
    and bn: "charBeginning env_a db_a (js ''a'') (- 1) = Inr [word_a_bang, word_a]"
    unfolding charBeginning_def searchBeginning_open [OF o] scan_entries_filter prefix_scan_a
    using idsToWords_a by simp_all
  have a1: "charAnywhere env_a db_a (js ''a'') 1 = Inr [word_a_bang]"
    and an: "charAnywhere env_a db_a (js ''a'') (- 1) = Inr [word_a_bang, word_a, word_a_bang]"
    unfolding charAnywhere_def searchAnywhere_open [OF o] scan_entries_filter partial_scan_a
    using idsToWords_a by simp_all
  note t = limit_bound [of env_a db_a "js ''a''" _ "words corpus_a"]
  from t [of 0] o have z: "charBeginning env_a db_a (js ''a'') 0 = Inr []"
    "charAnywhere env_a db_a (js ''a'') 0 = Inr []" by blast+
  from t [of 1] b1 have l: "length [word_a_bang] \<le> nat 1" by simp
  from t [of "- 1"] bn have rb: "resolves env_a db_a
      (map snd (filter (in_scan (js ''indexes/'' @ js ''a'')) (kv db_a))) [word_a_bang, word_a]"
    by simp
  from t [of "- 1"] an have ra: "resolves env_a db_a
      (map snd (filter (in_scan (js ''indexes/partial/'' @ js ''a'')) (kv db_a)))
      [word_a_bang, word_a, word_a_bang]"
    by simp
  from t [of 1] o inv rt obtain rs1 where "charBeginning env_a db_a (js ''a'') 1 = Inr rs1"
    and "length rs1 =
      (if (0::int) \<le> 1
       then min (nat 1) (length (filter (in_scan (js ''indexes/'' @ js ''a'')) (kv db_a)))
       else length (filter (in_scan (js ''indexes/'' @ js ''a'')) (kv db_a)))"
    by blast
  with b1 have e1: "length [word_a_bang] =
     min (nat 1) (length (filter (in_scan (js ''indexes/'' @ js ''a'')) (kv db_a)))"
    by simp
  from t [of "- 1"] o inv rt obtain rsn where "charAnywhere env_a db_a (js ''a'') (- 1) = Inr rsn"
    and "length rsn =
      (if (0::int) \<le> - 1
       then min (nat (- 1))
              (length (filter (in_scan (js ''indexes/partial/'' @ js ''a'')) (kv db_a)))
       else length (filter (in_scan (js ''indexes/partial/'' @ js ''a'')) (kv db_a)))"
    by blast
  with an have en: "length [word_a_bang, word_a, word_a_bang] =
     length (filter (in_scan (js ''indexes/partial/'' @ js ''a'')) (kv db_a))"
    by simp
  from o inv rt1 rt2 nb na b1 z bn a1 an l e1 en rb ra show ?thesis by blast
qed

section \<open>The order of the results\<close>

text \<open>
  Claim C8, amended.  The claim says that the records come in the order in which the keys
  were scanned, which it takes to be the ascending order of the pairs (matched field value,
  id).  The keys are the strings \<open>value-id\<close>, encoded in UTF-8 and compared byte by
  byte, and their order is another one as soon as a field value continues with a character
  below the hyphen.  What the code does: on a store in key order (as \<open>setup\<close> leaves it),
  the values of the stream of a query are those of the entries of the scan, whose encoded
  keys ascend strictly, and the resolver returns the records of the ids it is given
  position by position, so that the \<open>i\<close>-th record of a query is the record of the
  \<open>i\<close>-th entry scanned; on a store whose index resolves, with a parser that reads back
  what the serialiser wrote, every query returns such a list.
\<close>

theorem results_in_key_order:
  assumes "sorted_wrt (<) (map fst (kv db))"
  shows "(\<not> closed db \<longrightarrow>
            ValueStream db gte (gte @ [uFFFF]) limit =
              Inr (map snd (scan_entries (kv db) gte limit))) \<and>
         sorted_wrt (<) (map fst (scan_entries (kv db) gte limit)) \<and>
         (\<forall>idxs rs. idsToWords e db idxs = Inr rs \<longrightarrow> resolves e db idxs rs) \<and>
         (\<forall>rs. charBeginning e db q limit = Inr rs \<longrightarrow>
            resolves e db (map snd (scan_entries (kv db) (js ''indexes/'' @ q) limit)) rs) \<and>
         (\<forall>rs. charAnywhere e db q limit = Inr rs \<longrightarrow>
            resolves e db (map snd (scan_entries (kv db) (js ''indexes/partial/'' @ q) limit)) rs) \<and>
         (\<not> closed db \<and> index_resolves e ws (kv db) \<and>
          (\<forall>w\<in>set ws. JSON_parse_Word e (JSON_stringify e w) = Some w) \<longrightarrow>
            (\<exists>rs. charBeginning e db q limit = Inr rs \<and>
               resolves e db (map snd (scan_entries (kv db) (js ''indexes/'' @ q) limit)) rs) \<and>
            (\<exists>rs. charAnywhere e db q limit = Inr rs \<and>
               resolves e db
                 (map snd (scan_entries (kv db) (js ''indexes/partial/'' @ q) limit)) rs))"
proof -
  have b: "resolves e db (map snd (scan_entries (kv db) (js ''indexes/'' @ q) limit)) rs"
    if r: "charBeginning e db q limit = Inr rs" for rs
  proof -
    from r have o: "\<not> closed db"
      using searchBeginning_closed [of db e q limit] by (auto simp: charBeginning_def)
    from r searchBeginning_open [OF o, of e q limit] show ?thesis
      by (simp add: charBeginning_def idsToWords_resolves)
  qed
  have a: "resolves e db (map snd (scan_entries (kv db) (js ''indexes/partial/'' @ q) limit)) rs"
    if r: "charAnywhere e db q limit = Inr rs" for rs
  proof -
    from r have o: "\<not> closed db"
      using searchAnywhere_closed [of db e q limit] by (auto simp: charAnywhere_def)
    from r searchAnywhere_open [OF o, of e q limit] show ?thesis
      by (simp add: charAnywhere_def idsToWords_resolves)
  qed
  have t: "(\<exists>rs. charBeginning e db q limit = Inr rs \<and>
               resolves e db (map snd (scan_entries (kv db) (js ''indexes/'' @ q) limit)) rs) \<and>
            (\<exists>rs. charAnywhere e db q limit = Inr rs \<and>
               resolves e db
                 (map snd (scan_entries (kv db) (js ''indexes/partial/'' @ q) limit)) rs)"
    if o: "\<not> closed db" and inv: "index_resolves e ws (kv db)"
      and rt: "\<forall>w\<in>set ws. JSON_parse_Word e (JSON_stringify e w) = Some w"
  proof -
    from scan_succeeds [OF o inv rt, of q limit] obtain rb where
      "idsToWords e db (map snd (scan_entries (kv db) (js ''indexes/'' @ q) limit)) = Inr rb"
      by blast
    with searchBeginning_open [OF o, of e q limit]
    have 1: "charBeginning e db q limit = Inr rb" by (simp add: charBeginning_def)
    from scan_succeeds [OF o inv rt, of "js ''partial/'' @ q" limit] obtain ra where
      "idsToWords e db (map snd (scan_entries (kv db) (js ''indexes/partial/'' @ q) limit)) =
         Inr ra"
      unfolding partial_gte by blast
    with searchAnywhere_open [OF o, of e q limit]
    have 2: "charAnywhere e db q limit = Inr ra" by (simp add: charAnywhere_def)
    from 1 2 a b show ?thesis by blast
  qed
  from a b t ValueStream_open [of db gte limit] sorted_scan_entries [OF assms, of gte limit]
    idsToWords_resolves [of e db]
  show ?thesis by blast
qed

text \<open>
  The claim as the specification states it fails on the store of the words \<open>a\<close> and
  \<open>a!\<close>: their keys are \<open>a-1\<close> and \<open>a!-2\<close>, and the prefix search for \<open>a\<close>
  returns the word \<open>a!\<close> first.
\<close>

theorem prefix_search_not_in_value_order:
  "charBeginning env_a db_a (js ''a'') (- 1) = Inr [word_a_bang, word_a] \<and>
   value_id_le word_a word_a_bang \<and> \<not> value_id_le word_a_bang word_a"
proof -
  have 1: "charBeginning env_a db_a (js ''a'') (- 1) = Inr [word_a_bang, word_a]"
    unfolding charBeginning_def searchBeginning_open [OF open_db_a] scan_entries_filter
      prefix_scan_a
    using idsToWords_a by simp
  have 2: "value_id_le word_a word_a_bang" and 3: "\<not> value_id_le word_a_bang word_a"
    by (simp_all add: value_id_le_def word_a_def word_a_bang_def js_def)
  from 1 2 3 show ?thesis by blast
qed

text \<open>
  The store of the words whose fields continue \<open>a\<close> with U+20BB7 (id 1) and with U+FF5E
  (id 2): the key of the second, with the bytes EF BD 9E, comes before the key of the
  first, with the bytes F0 A0 AE B7, and the first two records of the prefix search for
  the empty string are the second word and the first word, in this order.
\<close>

theorem results_in_key_order_witness:
  "sorted_wrt (<) (map fst (kv db_u)) \<and> \<not> closed db_u \<and>
   index_resolves env_u (words corpus_u) (kv db_u) \<and>
   JSON_parse_Word env_u (JSON_stringify env_u word_a_astral) = Some word_a_astral \<and>
   JSON_parse_Word env_u (JSON_stringify env_u word_a_tilde) = Some word_a_tilde \<and>
   map fst (scan_entries (kv db_u) (js ''indexes/'' @ []) 2) =
     [ascii ''indexes/a'' @ [0xEF, 0xBD, 0x9E] @ ascii ''-2'',
      ascii ''indexes/a'' @ [0xF0, 0xA0, 0xAE, 0xB7] @ ascii ''-1''] \<and>
   charBeginning env_u db_u [] 2 = Inr [word_a_tilde, word_a_astral] \<and>
   resolves env_u db_u (map snd (scan_entries (kv db_u) (js ''indexes/'' @ []) 2))
     [word_a_tilde, word_a_astral]"
proof -
  have s: "setup_db env_u [] (js ''u.json'') False False = (Returned (js ''1.0''), db_u, [])"
    by (simp add: db_u_def loader_defs u_defs js_def utf8_defs)
  have r: "readFile env_u (js ''u.json'') = Some (js ''{version:1.0,words:[{id:1},{id:2}]}'')"
    and p: "JSON_parse env_u (js ''{version:1.0,words:[{id:1},{id:2}]}'') = Some corpus_u"
    by (simp_all add: env_u_def js_def)
  note ld = setup_loaded [OF s r p]
  from index_resolves_all_ops [of env_u corpus_u False] ld(1)
  have inv: "index_resolves env_u (words corpus_u) (kv db_u)" by simp
  then have srt: "sorted_wrt (<) (map fst (kv db_u))" by (simp add: index_resolves_def)
  have rt1: "JSON_parse_Word env_u (JSON_stringify env_u word_a_astral) = Some word_a_astral"
    and rt2: "JSON_parse_Word env_u (JSON_stringify env_u word_a_tilde) = Some word_a_tilde"
    by (simp_all add: env_u_def js_def word_a_astral_def word_a_tilde_def)
  have k: "map fst (scan_entries (kv db_u) (js ''indexes/'' @ []) 2) =
     [ascii ''indexes/a'' @ [0xEF, 0xBD, 0x9E] @ ascii ''-2'',
      ascii ''indexes/a'' @ [0xF0, 0xA0, 0xAE, 0xB7] @ ascii ''-1'']"
    unfolding scan_entries_filter using prefix_scan_u(1) by simp
  have c: "charBeginning env_u db_u [] 2 = Inr [word_a_tilde, word_a_astral]"
    unfolding charBeginning_def searchBeginning_open [OF open_db_u] scan_entries_filter
    using prefix_scan_u(1) idsToWords_u by simp
  from results_in_key_order [OF srt, of "[]" 2 env_u "[]"] c
  have "resolves env_u db_u (map snd (scan_entries (kv db_u) (js ''indexes/'' @ []) 2))
     [word_a_tilde, word_a_astral]" by blast
  with srt open_db_u inv rt1 rt2 k c show ?thesis by blast
qed

section \<open>The namespaces of the keys\<close>

text \<open>
  Claim C4 says that the keys of the records, of the exact index, of the substring index
  and of the metadata lie in pairwise disjoint namespaces, and that the scan of a prefix
  search returns entries of the exact index only.  The loader writes the entries of the
  exact index under \<open>indexes/\<close> and those of the substring index under
  \<open>indexes/partial/\<close>, which lies inside \<open>indexes/\<close>: on the store of the word
  \<open>abc\<close> the scan of the prefix search for \<open>p\<close> yields the five entries of the
  substring index and no other, and the search returns the word \<open>abc\<close>, which does not
  begin with \<open>p\<close>, five times.
\<close>

theorem prefix_scan_yields_partial_keys:
  "map fst (scan_entries (kv db_abc) (js ''indexes/'' @ js ''p'') (- 1)) =
     [ascii ''indexes/partial/-1'', ascii ''indexes/partial/a-1'',
      ascii ''indexes/partial/ab-1'', ascii ''indexes/partial/abc-1'',
      ascii ''indexes/partial/b-1''] \<and>
   charBeginning env_abc db_abc (js ''p'') (- 1) =
     Inr [word_abc, word_abc, word_abc, word_abc, word_abc] \<and>
   \<not> prefix (js ''p'') (traditional word_abc)"
proof -
  have 1: "map fst (scan_entries (kv db_abc) (js ''indexes/'' @ js ''p'') (- 1)) =
     [ascii ''indexes/partial/-1'', ascii ''indexes/partial/a-1'',
      ascii ''indexes/partial/ab-1'', ascii ''indexes/partial/abc-1'',
      ascii ''indexes/partial/b-1'']"
    unfolding db_abc
    by (simp add: scan_entries_def range_entries_def uFFFF_def js_def utf8_defs ascii_def)
  have 2: "charBeginning env_abc db_abc (js ''p'') (- 1) =
     Inr [word_abc, word_abc, word_abc, word_abc, word_abc]"
    unfolding db_abc by (simp add: query_defs js_def ascii_def env_abc_def)
  have 3: "\<not> prefix (js ''p'') (traditional word_abc)"
    by (simp add: word_abc_def js_def)
  from 1 2 3 show ?thesis by blast
qed

section \<open>The empty substring\<close>





end
